theory Spec2Isabelle
  imports Complex_Main "HOL-Library.Multiset" "HOL-Library.Numeral_Type"
begin

section \<open>Numbers\<close>

text \<open>
  The integer columns of the record store are modelled as \<open>int\<close>. A JavaScript
  division of two such integers is a \<open>jsnum\<close>: the exact quotient, or the special value
  that JavaScript returns for a zero divisor. (JavaScript rounds the quotient to the
  nearest binary64 value; the model keeps the exact quotient.)
\<close>

datatype jsnum = Num rat | PosInf | NegInf | NaN

definition js_div :: "int \<Rightarrow> int \<Rightarrow> jsnum" where
  "js_div a b =
     (if b = 0 then (if a = 0 then NaN else if 0 < a then PosInf else NegInf)
      else Num (of_int a / of_int b))"

section \<open>Configuration\<close>

text \<open>
  The module \<open>config\<close> is imported by every source file and fixes the constants below.
  They are parameters of the model. \<open>PARENT_WALLET_PUBLIC_KEY\<close> may be unset.
\<close>

record config =
  TOTAL_DECIMALS :: int
  PARENT_WALLET_PUBLIC_KEY :: "string option"
  THRESHOLD :: nat
  SHARES :: nat
  DISTRIBUTED_SERVER_ENDPOINTS :: "string list"

section \<open>Record store\<close>

text \<open>
  Modelled from the spec: the table declarations (the Prisma schema) are not among the
  sources. A worker row has an address and the two balances; a payout row has the worker
  reference, the amount, a status and the ledger signature. The worker table is keyed by
  the worker id; the payout table is kept in insertion order. The store's own limits on
  the range of an integer column are not modelled.
\<close>

record worker_row =
  address :: string
  pending_amount :: int
  locked_amount :: int

datatype txn_status = Pending | Success | Failed

record payout_row =
  worker_id :: int
  amount :: int
  status :: txn_status
  signature :: string

record db =
  worker :: "int \<rightharpoonup> worker_row"
  payouts :: "payout_row list"

section \<open>Errors\<close>

text \<open>
  Every error of the sources is a JavaScript \<open>Error\<close> told apart by its message only.
  The constructors carry the names of the spec's taxonomy; \<open>message\<close> gives the text
  the source throws. \<open>External m\<close> is an error thrown by a library call (public key
  parsing, instruction building, submission, the queue client) with message \<open>m\<close>.
\<close>

datatype error =
    NotFound
  | InsufficientBalance
  | WorkerMissing
  | ParentKeyUnset
  | InsufficientShares
  | CorruptShare
  | External string

fun message :: "error \<Rightarrow> string" where
  "message NotFound = ''Worker not found''"
| "message InsufficientBalance =
     ''Your need to have atleast 0.03 sol as pending amount to withdraw.''"
| "message WorkerMissing = ''Worker Not Found''"
| "message ParentKeyUnset = ''Set parent public key''"
| "message InsufficientShares = ''Minimum threshold required''"
| "message CorruptShare = ''Could not recover the private key, send a valid uint8 array''"
| "message (External m) = m"

section \<open>Lock: \<open>POST /payout\<close>\<close>

text \<open>
  The body of the serializable transaction of \<open>router.post("/payout")\<close>. A throw inside
  the transaction rolls it back, so the error result carries no store.
\<close>

definition lock_tx :: "config \<Rightarrow> int \<Rightarrow> db \<Rightarrow> error + (db \<times> jsnum)" where
  "lock_tx cfg workerId d =
     (case worker d workerId of
        None \<Rightarrow> Inl NotFound
      | Some w \<Rightarrow>
          if pending_amount w < 3000 then Inl InsufficientBalance
          else
            let amount = pending_amount w;
                updateWorkerLockedBalance =
                  w\<lparr>pending_amount := pending_amount w - amount,
                    locked_amount := locked_amount w + amount\<rparr>
            in Inr (d\<lparr>worker := (worker d)(workerId \<mapsto> updateWorkerLockedBalance)\<rparr>,
                    js_div (locked_amount updateWorkerLockedBalance) (TOTAL_DECIMALS cfg)))"

text \<open>
  The route. The state is the store and the settlement queue (the worker ids of the
  enqueued jobs, oldest first). \<open>queue_down\<close> is \<open>Some m\<close> when the queue client rejects
  the \<open>add\<close> with message \<open>m\<close>.
\<close>

datatype response = Locked jsnum | Status500 string

record sys =
  store :: db
  payoutQueue :: "int list"

definition post_payout :: "config \<Rightarrow> string option \<Rightarrow> int \<Rightarrow> sys \<Rightarrow> sys \<times> response" where
  "post_payout cfg queue_down workerId s =
     (case lock_tx cfg workerId (store s) of
        Inl e \<Rightarrow> (s, Status500 (message e))
      | Inr (d', lockedAmount) \<Rightarrow>
          (case queue_down of
             Some m \<Rightarrow> (s\<lparr>store := d'\<rparr>, Status500 m)
           | None \<Rightarrow>
               (s\<lparr>store := d', payoutQueue := payoutQueue s @ [workerId]\<rparr>,
                Locked lockedAmount)))"

section \<open>Balance: \<open>GET /balance\<close>\<close>

text \<open>
  Both fields of the answer use optional chaining, so they are absent when no worker row
  is found. The route returns the store it was given.
\<close>

record balance_response =
  pendingAmount :: "int option"
  lockedAmount :: "int option"

definition get_balance :: "int \<Rightarrow> db \<Rightarrow> db \<times> balance_response" where
  "get_balance userId d =
     (let w = worker d userId
      in (d, \<lparr>pendingAmount = map_option pending_amount w,
               lockedAmount = map_option pending_amount w\<rparr>))"

section \<open>Profile: \<open>GET /me\<close>\<close>

record me_response =
  existingUser :: worker_row
  locked :: jsnum
  me_amount :: jsnum
  earning :: jsnum

definition total_earning :: "payout_row list \<Rightarrow> int" where
  "total_earning ps = foldl (\<lambda>totalEarning payout. totalEarning + amount payout) 0 ps"

definition get_me :: "config \<Rightarrow> int \<Rightarrow> db \<Rightarrow> string + me_response" where
  "get_me cfg userId d =
     (case worker d userId of
        None \<Rightarrow> Inl ''Worker Not Found''
      | Some u \<Rightarrow>
          let ps = filter (\<lambda>p. worker_id p = userId) (payouts d)
          in Inr \<lparr>existingUser = u,
                  locked = js_div (locked_amount u) (TOTAL_DECIMALS cfg),
                  me_amount = js_div (pending_amount u) (TOTAL_DECIMALS cfg),
                  earning = js_div (total_earning ps) (TOTAL_DECIMALS cfg)\<rparr>)"

section \<open>Strings and buffers\<close>

text \<open>
  Strings are held as their UTF-8 bytes and a \<open>Buffer\<close> is a byte list, so
  \<open>Buffer.from(str)\<close> and \<open>buf.toString()\<close> are the identity on well-formed text.
\<close>

type_synonym buffer = "char list"

definition Buffer_from :: "string \<Rightarrow> buffer" where
  "Buffer_from s = s"

definition Buffer_toString :: "buffer \<Rightarrow> string" where
  "Buffer_toString b = b"

text \<open>Decimal rendering of a number, as \<open>Uint8Array.prototype.toString\<close> and template
  strings print it.\<close>

fun decimal :: "nat \<Rightarrow> string" where
  "decimal n =
     (if n < 10 then [char_of (48 + n)]
      else decimal (n div 10) @ [char_of (48 + n mod 10)])"

declare decimal.simps [simp del]

fun join_comma :: "string list \<Rightarrow> string" where
  "join_comma [] = []"
| "join_comma [x] = x"
| "join_comma (x # y # ys) = x @ '','' @ join_comma (y # ys)"

definition Uint8Array_toString :: "buffer \<Rightarrow> string" where
  "Uint8Array_toString b = join_comma (map (\<lambda>c. decimal (of_char c)) b)"

text \<open>\<open>str.split(",")\<close>: the pieces between the commas; the empty string gives one
  empty piece.\<close>

fun split_comma :: "string \<Rightarrow> string list" where
  "split_comma [] = [[]]"
| "split_comma (c # cs) =
     (if c = CHR '','' then [] # split_comma cs
      else (case split_comma cs of
              [] \<Rightarrow> [[c]]
            | p # ps \<Rightarrow> (c # p) # ps))"

section \<open>Libraries and the outside world\<close>

text \<open>
  The sources call libraries that are not part of the repository: the secret-sharing
  library (\<open>split\<close>, \<open>combine\<close>), the base-58 decoder, the ledger client's key and
  instruction constructors, and JavaScript's \<open>Number\<close>. They are parameters of the
  model, collected in \<open>lib\<close>. A constructor that can throw is given by the message it
  throws, if any.
\<close>

datatype pubkey = PublicKey string

datatype keypair = Keypair buffer

record transfer_params =
  fromPubkey :: pubkey
  toPubkey :: pubkey
  lamports :: jsnum

type_synonym transaction = "transfer_params list"

type_synonym share = "jsnum list"

record lib =
  js_Number :: "string \<Rightarrow> jsnum"
  PublicKey_throws :: "string \<Rightarrow> string option"
  transfer_throws :: "transfer_params \<Rightarrow> string option"
  sss_split :: "buffer \<Rightarrow> nat \<Rightarrow> nat \<Rightarrow> nat \<Rightarrow> buffer list"
  sss_combine :: "share list \<Rightarrow> buffer option"
  bs58_decode :: "string \<Rightarrow> buffer option"
  valid_secretKey :: "buffer \<Rightarrow> bool"

definition new_PublicKey :: "lib \<Rightarrow> string \<Rightarrow> error + pubkey" where
  "new_PublicKey l s =
     (case PublicKey_throws l s of Some m \<Rightarrow> Inl (External m) | None \<Rightarrow> Inr (PublicKey s))"

definition SystemProgram_transfer :: "lib \<Rightarrow> transfer_params \<Rightarrow> error + transfer_params" where
  "SystemProgram_transfer l p =
     (case transfer_throws l p of Some m \<Rightarrow> Inl (External m) | None \<Rightarrow> Inr p)"

definition Keypair_fromSecretKey :: "lib \<Rightarrow> buffer \<Rightarrow> keypair option" where
  "Keypair_fromSecretKey l b = (if valid_secretKey l b then Some (Keypair b) else None)"

text \<open>
  What an endpoint does with one request: the request is rejected with a message; the
  handler throws while reading the payload (no \<open>data\<close>, or a \<open>share\<close> that is not a
  string) with a message; the payload has no \<open>share\<close> (or a falsy one); or the payload
  has the string \<open>share\<close>.
\<close>

datatype reply = Rejected string | Unreadable string | NoShare | Share string

text \<open>
  The network answers each request URL; \<open>order\<close> lists the request indices (from 0)
  in the order in which the requests complete, an index that names no request being
  ignored; \<open>sendTransaction\<close> is the ledger network's answer to a submission: a
  message when it throws, a signature otherwise.
\<close>

record world =
  net :: "string \<Rightarrow> reply"
  order :: "nat list"
  sendTransaction :: "transaction \<Rightarrow> keypair list \<Rightarrow> string + string"

section \<open>Share creation: \<open>createShares\<close>\<close>

text \<open>
  \<open>createShares\<close> writes one file; the model returns its path and content. The fourth
  argument of \<open>sss_split\<close> stands for the randomness the library draws.
\<close>

definition env_entry :: "string \<Rightarrow> buffer \<times> nat \<Rightarrow> string" where
  "env_entry data si =
     (let number = snd si + 1;
          shareString = Uint8Array_toString (fst si)
      in data @ ''# SHARE_'' @ decimal number @ [CHR '' '', CHR 0x0A] @
         ''SHARE='' @ [CHR 0x22] @ shareString @ [CHR 0x22, CHR '' '', CHR 0x0A])"

definition created_shares :: "lib \<Rightarrow> config \<Rightarrow> nat \<Rightarrow> string \<Rightarrow> buffer list" where
  "created_shares l cfg seed privateKey =
     sss_split l (Buffer_from privateKey) (SHARES cfg) (THRESHOLD cfg) seed"

definition createShares :: "lib \<Rightarrow> config \<Rightarrow> nat \<Rightarrow> string \<Rightarrow> string \<times> string" where
  "createShares l cfg seed privateKey =
     (let shares = created_shares l cfg seed privateKey
      in (''./src/sss/.env'', foldl env_entry [] (zip shares [0..<length shares])))"

section \<open>Key reconstruction: \<open>recoverPrivateKey\<close>\<close>

text \<open>
  The body of the \<open>try\<close>; \<open>None\<close> when any of the three calls throws. The argument
  is a list in every call, so the source's test for a missing argument has no branch of
  its own.
\<close>

definition try_recover :: "lib \<Rightarrow> share list \<Rightarrow> keypair option" where
  "try_recover l sharesArray =
     (case sss_combine l sharesArray of
        None \<Rightarrow> None
      | Some recovered \<Rightarrow>
          (case bs58_decode l (Buffer_toString recovered) of
             None \<Rightarrow> None
           | Some secretKey \<Rightarrow> Keypair_fromSecretKey l secretKey))"

definition recoverPrivateKey :: "config \<Rightarrow> lib \<Rightarrow> share list \<Rightarrow> error + keypair" where
  "recoverPrivateKey cfg l sharesArray =
     (if length sharesArray < THRESHOLD cfg then Inl InsufficientShares
      else (case try_recover l sharesArray of
              None \<Rightarrow> Inl CorruptShare
            | Some keypair \<Rightarrow> Inr keypair))"

text \<open>A share as the numbers of its bytes, the form in which it reaches \<open>combine\<close>.\<close>

definition share_numbers :: "buffer \<Rightarrow> share" where
  "share_numbers b = map (\<lambda>c. Num (of_nat (of_char c))) b"

text \<open>The byte a number stands for, if it is an integer from 0 to 255.\<close>

fun byte_of :: "jsnum \<Rightarrow> char option" where
  "byte_of (Num q) =
     (if q = of_int \<lfloor>q\<rfloor> \<and> 0 \<le> q \<and> q < 256 then Some (char_of (nat \<lfloor>q\<rfloor>)) else None)"
| "byte_of _ = None"

section \<open>The secret-sharing scheme\<close>

text \<open>
  Modelled from the spec: the secret-sharing library (\<open>sss.split\<close>, \<open>sss.combine\<close>) is
  not among the sources. The spec describes it as a (K,N) threshold secret-sharing scheme
  whose reconstruction recovers the original secret byte sequence from a quorum of K
  fragments. The model is Shamir's scheme, byte by byte, over the integers modulo the
  prime 257: for each byte of the secret a polynomial of degree below K with the byte as
  its constant term, share \<open>x\<close> (from 1 to N) holding the values of the polynomials at
  \<open>x\<close>, and reconstruction by interpolation at 0.
\<close>

type_synonym gf = "257"

definition to_nat :: "gf \<Rightarrow> nat" where
  "to_nat v = nat (Rep_bit1 v)"

text \<open>Modelled from the spec: the polynomials of the scheme, as coefficient lists with
  the lowest degree first.\<close>

fun poly_eval :: "'a::comm_ring_1 list \<Rightarrow> 'a \<Rightarrow> 'a" where
  "poly_eval [] x = 0"
| "poly_eval (c # cs) x = c + x * poly_eval cs x"

text \<open>The quotient of a polynomial by \<open>x - a\<close> (synthetic division); it appears in
  the proofs about the interpolation only.\<close>

fun quot :: "'a::comm_ring_1 \<Rightarrow> 'a list \<Rightarrow> 'a list" where
  "quot a [] = []"
| "quot a [c] = []"
| "quot a (c # d # ds) = poly_eval (d # ds) a # quot a (d # ds)"

text \<open>Modelled from the spec: the reciprocal modulo 257 of the scheme's arithmetic, found
  by search.\<close>

definition inv_nat :: "nat \<Rightarrow> nat" where
  "inv_nat r = (case find (\<lambda>b. (b * r) mod 257 = 1) [1..<257] of None \<Rightarrow> 0 | Some b \<Rightarrow> b)"

definition gf_inv :: "gf \<Rightarrow> gf" where
  "gf_inv v = of_nat (inv_nat (to_nat v))"

text \<open>
  Modelled from the spec: the reconstruction algorithm of the missing library,
  interpolation at 0 by divided differences: the first point \<open>(x, y)\<close> is taken out, every
  other point \<open>(x', y')\<close> becomes \<open>(x', (y' - y) / (x' - x))\<close>, a point of a polynomial of
  one degree less, and the value at 0 is \<open>y - x\<close> times the value at 0 of that polynomial.
\<close>

definition step :: "('a::comm_ring_1 \<Rightarrow> 'a) \<Rightarrow> 'a \<times> 'a \<Rightarrow> 'a \<times> 'a \<Rightarrow> 'a \<times> 'a" where
  "step rcp p q = (fst q, (snd q - snd p) * rcp (fst q - fst p))"

function recon :: "('a::comm_ring_1 \<Rightarrow> 'a) \<Rightarrow> ('a \<times> 'a) list \<Rightarrow> 'a" where
  "recon rcp [] = 0"
| "recon rcp (p # pts) = snd p - fst p * recon rcp (map (step rcp p) pts)"
  by pat_completeness auto
termination
  by (relation "measure (\<lambda>(rcp, pts). length pts)") simp_all

text \<open>
  Modelled from the spec: the missing \<open>sss.split\<close>. \<open>noise seed i j\<close> stands for the
  random coefficient of degree \<open>j\<close> drawn for byte \<open>i\<close>. A share is its index byte
  followed by two bytes for each value.
\<close>

definition noise :: "nat \<Rightarrow> nat \<Rightarrow> nat \<Rightarrow> gf" where
  "noise seed i j = of_nat ((seed + 1) * (31 * i + 7 * j + 1) + seed * j)"

definition coefficients :: "buffer \<Rightarrow> nat \<Rightarrow> nat \<Rightarrow> nat \<Rightarrow> gf list" where
  "coefficients secret k seed i = of_nat (of_char (secret ! i)) # map (noise seed i) [1..<k]"

definition encode_value :: "gf \<Rightarrow> buffer" where
  "encode_value v = [char_of (to_nat v div 256), char_of (to_nat v mod 256)]"

definition share_values :: "buffer \<Rightarrow> nat \<Rightarrow> nat \<Rightarrow> nat \<Rightarrow> gf list" where
  "share_values secret k seed x =
     map (\<lambda>i. poly_eval (coefficients secret k seed i) (of_nat x)) [0..<length secret]"

definition shamir_share :: "buffer \<Rightarrow> nat \<Rightarrow> nat \<Rightarrow> nat \<Rightarrow> buffer" where
  "shamir_share secret k seed x =
     char_of x # concat (map encode_value (share_values secret k seed x))"

definition shamir_split :: "buffer \<Rightarrow> nat \<Rightarrow> nat \<Rightarrow> nat \<Rightarrow> buffer list" where
  "shamir_split secret n k seed = map (shamir_share secret k seed) [1..<Suc n]"

text \<open>
  Modelled from the spec: the missing \<open>sss.combine\<close>. Every share must be a list of
  bytes with an index and whole values, the indices must differ and the shares must have
  one length; the number of shares is not examined, so too few shares combine into some
  other byte sequence.
\<close>

fun decode_values :: "buffer \<Rightarrow> gf list option" where
  "decode_values [] = Some []"
| "decode_values [hi] = None"
| "decode_values (hi # lo # rest) =
     map_option ((#) (of_nat (256 * of_char hi + of_char lo))) (decode_values rest)"

definition parse_share :: "share \<Rightarrow> (gf \<times> gf list) option" where
  "parse_share s =
     (case those (map byte_of s) of
        None \<Rightarrow> None
      | Some [] \<Rightarrow> None
      | Some (x # body) \<Rightarrow> map_option (Pair (of_nat (of_char x))) (decode_values body))"

definition to_byte :: "gf \<Rightarrow> char" where
  "to_byte v = char_of (to_nat v)"

definition shamir_combine :: "share list \<Rightarrow> buffer option" where
  "shamir_combine shares =
     (case those (map parse_share shares) of
        None \<Rightarrow> None
      | Some pts \<Rightarrow>
          if pts \<noteq> [] \<and> distinct (map fst pts)
             \<and> list_all (\<lambda>q. length (snd q) = length (snd (hd pts))) pts
          then Some (map (\<lambda>i. to_byte (recon gf_inv (map (\<lambda>q. (fst q, snd q ! i)) pts)))
                       [0..<length (snd (hd pts))])
          else None)"

text \<open>Modelled from the spec: the libraries \<open>l\<close> with this scheme in the place of the
  missing secret-sharing library.\<close>

definition shamir :: "lib \<Rightarrow> lib" where
  "shamir l = l\<lparr>sss_split := shamir_split, sss_combine := shamir_combine\<rparr>"

section \<open>Share fetching: \<open>fetchShares\<close>\<close>

record fetched =
  sharesArray :: "share list"
  requested :: "string list"
  fetch_log :: "string list"

fun on_reply :: "lib \<Rightarrow> share list \<times> string list \<Rightarrow> reply \<Rightarrow> share list \<times> string list" where
  "on_reply l (shares, logged) (Rejected m) = (shares, logged @ [m])"
| "on_reply l (shares, logged) (Unreadable m) = (shares, logged @ [m])"
| "on_reply l (shares, logged) NoShare = (shares, logged)"
| "on_reply l (shares, logged) (Share s) =
     (if s = [] then (shares, logged)
      else (shares @ [map (js_Number l) (split_comma s)], logged))"

definition fetchShares :: "config \<Rightarrow> lib \<Rightarrow> world \<Rightarrow> fetched" where
  "fetchShares cfg l w =
     (let requests = map (\<lambda>endpoint. endpoint @ ''/share'') (DISTRIBUTED_SERVER_ENDPOINTS cfg);
          replies = map (\<lambda>i. net w (requests ! i))
                      (filter (\<lambda>i. i < length requests) (order w));
          collected = foldl (on_reply l) ([], []) replies
      in \<lparr>sharesArray = fst collected, requested = requests, fetch_log = snd collected\<rparr>)"

text \<open>
  What one reply contributes: the fragment it carries, and the message logged for it.
  A payload without a share, or with an empty one, contributes neither.
\<close>

fun fragments :: "lib \<Rightarrow> reply \<Rightarrow> share list" where
  "fragments l (Share s) = (if s = [] then [] else [map (js_Number l) (split_comma s)])"
| "fragments l _ = []"

fun failures :: "reply \<Rightarrow> string list" where
  "failures (Rejected m) = [m]"
| "failures (Unreadable m) = [m]"
| "failures _ = []"

section \<open>Settlement: \<open>process_Queue\<close>\<close>

datatype log_line = Line string | Paid int jsnum string

record trace =
  share_requests :: "string list"
  submitted :: "(transaction \<times> keypair list) list"
  console :: "log_line list"

definition build_transaction :: "config \<Rightarrow> lib \<Rightarrow> worker_row \<Rightarrow> error + transaction" where
  "build_transaction cfg l w =
     (case PARENT_WALLET_PUBLIC_KEY cfg of
        None \<Rightarrow> Inl ParentKeyUnset
      | Some parent \<Rightarrow>
          if parent = [] then Inl ParentKeyUnset
          else (case new_PublicKey l parent of
                  Inl e \<Rightarrow> Inl e
                | Inr from \<Rightarrow>
                    (case new_PublicKey l (address w) of
                       Inl e \<Rightarrow> Inl e
                     | Inr to \<Rightarrow>
                         (case SystemProgram_transfer l
                                 \<lparr>fromPubkey = from, toPubkey = to,
                                  lamports = js_div (1000000000 * locked_amount w)
                                               (TOTAL_DECIMALS cfg)\<rparr> of
                            Inl e \<Rightarrow> Inl e
                          | Inr instruction \<Rightarrow> Inr [instruction]))))"

text \<open>The \<open>try\<close> block after the worker check: the signature or the error caught, and
  what was requested, submitted and logged on the way.\<close>

definition settle :: "config \<Rightarrow> lib \<Rightarrow> world \<Rightarrow> int \<Rightarrow> worker_row \<Rightarrow> (error + string) \<times> trace" where
  "settle cfg l w workerId wk =
     (case build_transaction cfg l wk of
        Inl e \<Rightarrow> (Inl e, \<lparr>share_requests = [], submitted = [], console = []\<rparr>)
      | Inr transaction \<Rightarrow>
          let f = fetchShares cfg l w;
              logged = map Line (fetch_log f)
          in (case recoverPrivateKey cfg l (sharesArray f) of
                Inl e \<Rightarrow>
                  (Inl e, \<lparr>share_requests = requested f, submitted = [], console = logged\<rparr>)
              | Inr keypair \<Rightarrow>
                  (case sendTransaction w transaction [keypair] of
                     Inl m \<Rightarrow>
                       (Inl (External m),
                        \<lparr>share_requests = requested f,
                         submitted = [(transaction, [keypair])], console = logged\<rparr>)
                   | Inr sig \<Rightarrow>
                       (Inr sig,
                        \<lparr>share_requests = requested f,
                         submitted = [(transaction, [keypair])],
                         console = logged @
                           [Paid workerId
                              (js_div (1000000000 * locked_amount wk) (TOTAL_DECIMALS cfg))
                              sig]\<rparr>))))"

definition initializing :: string where
  "initializing = [CHR 0x0A, CHR 0x0A] @ ''Initializing Transaction''"

definition cleared :: string where
  "cleared = ''Worker's locked amount and payout is cleared, Transaction Successful.'' @
     [CHR 0x0A, CHR 0x0A]"

record outcome =
  store_after :: db
  result :: "error + string"
  did :: trace

definition aborted :: "db \<Rightarrow> error \<Rightarrow> trace \<Rightarrow> outcome" where
  "aborted d e t =
     \<lparr>store_after = d, result = Inl e,
      did = t\<lparr>console := [Line initializing] @ console t @ [Line (message e)]\<rparr>\<rparr>"

definition process_Queue :: "config \<Rightarrow> lib \<Rightarrow> world \<Rightarrow> int \<Rightarrow> db \<Rightarrow> outcome" where
  "process_Queue cfg l w workerId d =
     (case worker d workerId of
        None \<Rightarrow>
          aborted d WorkerMissing \<lparr>share_requests = [], submitted = [], console = []\<rparr>
      | Some wk \<Rightarrow>
          (case settle cfg l w workerId wk of
             (Inl e, t) \<Rightarrow> aborted d e t
           | (Inr sig, t) \<Rightarrow>
               \<lparr>store_after =
                  d\<lparr>worker := (worker d)(workerId \<mapsto>
                       wk\<lparr>locked_amount := locked_amount wk - locked_amount wk\<rparr>),
                    payouts := payouts d @
                      [\<lparr>worker_id = workerId, amount = locked_amount wk,
                        status = Success, signature = sig\<rparr>]\<rparr>,
                result = Inr sig,
                did = t\<lparr>console := [Line initializing] @ console t @ [Line cleared]\<rparr>\<rparr>))"

section \<open>Concrete configuration, stores, libraries and networks\<close>

text \<open>
  The values at which the theorems below are instantiated. The threshold 3000 is
  announced by the lock's own error message as 0.03 SOL, which makes \<open>TOTAL_DECIMALS\<close>
  100000 units per SOL.
\<close>

definition cfg0 :: config where
  "cfg0 = \<lparr>TOTAL_DECIMALS = 100000, PARENT_WALLET_PUBLIC_KEY = Some ''PARENT'',
           THRESHOLD = 3, SHARES = 5,
           DISTRIBUTED_SERVER_ENDPOINTS = [''http://s1'', ''http://s2'', ''http://s3'',
             ''http://s4'', ''http://s5'']\<rparr>"

definition worker_of :: "int \<Rightarrow> int \<Rightarrow> worker_row" where
  "worker_of p l = \<lparr>address = ''WORKER'', pending_amount = p, locked_amount = l\<rparr>"

definition db_of :: "int \<Rightarrow> int \<Rightarrow> payout_row list \<Rightarrow> db" where
  "db_of p l ps = \<lparr>worker = [1 \<mapsto> worker_of p l], payouts = ps\<rparr>"

definition sys_of :: "int \<Rightarrow> int \<Rightarrow> sys" where
  "sys_of p l = \<lparr>store = db_of p l [], payoutQueue = []\<rparr>"

text \<open>
  A stand-in for the libraries: \<open>Number\<close> reads decimal digits; a share is an index
  byte followed by the secret, and \<open>combine\<close> reads the secret off the first share; the
  decoder accepts text over the base-58 alphabet and a secret key has eight bytes.
\<close>

fun parse_dec :: "nat \<Rightarrow> string \<Rightarrow> nat option" where
  "parse_dec acc [] = Some acc"
| "parse_dec acc (c # cs) =
     (if 48 \<le> (of_char c :: nat) \<and> (of_char c :: nat) \<le> 57
      then parse_dec (10 * acc + (of_char c - 48)) cs else None)"

definition Number0 :: "string \<Rightarrow> jsnum" where
  "Number0 s = (case parse_dec 0 s of Some n \<Rightarrow> Num (of_nat n) | None \<Rightarrow> NaN)"

definition split0 :: "buffer \<Rightarrow> nat \<Rightarrow> nat \<Rightarrow> nat \<Rightarrow> buffer list" where
  "split0 secret n k seed = map (\<lambda>i. char_of i # secret) [1..<Suc n]"

definition combine0 :: "share list \<Rightarrow> buffer option" where
  "combine0 shares =
     (case shares of
        [] \<Rightarrow> None
      | s # _ \<Rightarrow>
          (case those (map byte_of s) of
             None \<Rightarrow> None
           | Some [] \<Rightarrow> None
           | Some (i # secret) \<Rightarrow> Some secret))"

definition base58 :: string where
  "base58 = ''123456789ABCDEFGHJKLMNPQRSTUVWXYZabcdefghijkmnopqrstuvwxyz''"

definition decode0 :: "string \<Rightarrow> buffer option" where
  "decode0 s = (if list_all (\<lambda>c. c \<in> set base58) s then Some s else None)"

definition lib0 :: lib where
  "lib0 = \<lparr>js_Number = Number0,
           PublicKey_throws = (\<lambda>s. if s = [] then Some ''Invalid public key input'' else None),
           transfer_throws = (\<lambda>p. None),
           sss_split = split0, sss_combine = combine0, bs58_decode = decode0,
           valid_secretKey = (\<lambda>b. length b = 8)\<rparr>"

definition key0 :: string where
  "key0 = ''5Kd3NBUA''"

text \<open>The share of \<open>key0\<close> with index \<open>i\<close>, as the numbers of its bytes.\<close>

definition share0 :: "nat \<Rightarrow> share" where
  "share0 i = map (\<lambda>n. Num (of_nat n)) [i, 53, 75, 100, 51, 78, 66, 85, 65]"

text \<open>
  Networks over the five endpoints of \<open>cfg0\<close>. \<open>share_or_refuse up\<close> lets the
  endpoints whose request is listed in \<open>up\<close> answer with their share of \<open>key0\<close> and
  the others refuse the connection; the requests complete in the order 5, 3, 1, 4, 2;
  every submission is accepted with the signature \<open>SIG1\<close>.
\<close>

definition shares0 :: "(string \<times> string) list" where
  "shares0 =
     [(''http://s1/share'', ''1,53,75,100,51,78,66,85,65''),
      (''http://s2/share'', ''2,53,75,100,51,78,66,85,65''),
      (''http://s3/share'', ''3,53,75,100,51,78,66,85,65''),
      (''http://s4/share'', ''4,53,75,100,51,78,66,85,65''),
      (''http://s5/share'', ''5,53,75,100,51,78,66,85,65'')]"

definition share_or_refuse :: "string list \<Rightarrow> string \<Rightarrow> reply" where
  "share_or_refuse up url =
     (if url \<in> set up
      then (case map_of shares0 url of
              None \<Rightarrow> Rejected ''getaddrinfo ENOTFOUND''
            | Some s \<Rightarrow> Share s)
      else Rejected ''connect ECONNREFUSED'')"

definition world_of :: "(string \<Rightarrow> reply) \<Rightarrow> world" where
  "world_of f = \<lparr>net = f, order = [4, 2, 0, 3, 1],
                 sendTransaction = (\<lambda>t ks. Inr ''SIG1'')\<rparr>"

definition worldC :: world where
  "worldC = world_of (share_or_refuse [''http://s3/share'', ''http://s4/share'',
     ''http://s5/share''])"

definition worldD :: world where
  "worldD = world_of (share_or_refuse [''http://s5/share''])"

definition world_mute :: world where
  "world_mute = world_of (\<lambda>url. if url = ''http://s1/share'' then NoShare
     else share_or_refuse [''http://s2/share'', ''http://s3/share'', ''http://s4/share'',
       ''http://s5/share''] url)"

section \<open>The lock\<close>

lemma lock_tx_Some:
  assumes "worker d workerId = Some w" and "3000 \<le> pending_amount w"
  shows "lock_tx cfg workerId d =
           Inr (d\<lparr>worker := (worker d)(workerId \<mapsto>
                    w\<lparr>pending_amount := 0,
                      locked_amount := locked_amount w + pending_amount w\<rparr>)\<rparr>,
                js_div (locked_amount w + pending_amount w) (TOTAL_DECIMALS cfg))"
  using assms by (simp add: lock_tx_def Let_def)

text \<open>
  C1 (as amended). For every worker that exists and whose \<open>pending_amount\<close> is at least
  3000, the lock sets \<open>pending_amount\<close> to 0 (it subtracts the full pending amount), adds
  the same amount to \<open>locked_amount\<close>, leaves every other worker and the payout table as
  they were, and returns the new \<open>locked_amount\<close> divided by \<open>TOTAL_DECIMALS\<close>; when
  the queue accepts the job, the route enqueues one job for the worker and answers with
  that quotient.
\<close>

theorem lock_moves_pending_to_locked:
  assumes "worker (store s) workerId = Some w" and "3000 \<le> pending_amount w"
  shows "\<exists>d'. lock_tx cfg workerId (store s) =
                 Inr (d', js_div (locked_amount w + pending_amount w) (TOTAL_DECIMALS cfg))
             \<and> worker d' workerId =
                 Some (w\<lparr>pending_amount := 0,
                        locked_amount := locked_amount w + pending_amount w\<rparr>)
             \<and> (\<forall>other. other \<noteq> workerId \<longrightarrow> worker d' other = worker (store s) other)
             \<and> payouts d' = payouts (store s)
             \<and> post_payout cfg None workerId s =
                 (s\<lparr>store := d', payoutQueue := payoutQueue s @ [workerId]\<rparr>,
                  Locked (js_div (locked_amount w + pending_amount w) (TOTAL_DECIMALS cfg)))"
  using assms by (simp add: post_payout_def lock_tx_Some)

theorem lock_moves_pending_to_locked_witness:
  "\<exists>d'. lock_tx cfg0 1 (store (sys_of 5000 0)) = Inr (d', Num (1 / 20))
       \<and> worker d' 1 = Some (worker_of 0 5000)
       \<and> payoutQueue (fst (post_payout cfg0 None 1 (sys_of 5000 0))) = [1]"
proof -
  have w: "worker (store (sys_of 5000 0)) 1 = Some (worker_of 5000 0)"
    by (simp add: sys_of_def db_of_def)
  have p: "3000 \<le> pending_amount (worker_of 5000 0)"
    by (simp add: worker_of_def)
  from lock_moves_pending_to_locked [OF w p, of cfg0]
  show ?thesis
    by (auto simp: worker_of_def cfg0_def js_div_def sys_of_def)
qed

text \<open>
  C1 as stated fails in what the lock returns: with 100000 units per SOL, a worker with
  \<open>pending_amount = 5000\<close> and nothing locked ends with \<open>locked_amount = 5000\<close>, and the
  lock returns 1/20 (0.05 SOL), not 5000.
\<close>

theorem lock_returns_quotient_counterexample:
  "map_sum id snd (lock_tx cfg0 1 (db_of 5000 0 [])) = Inr (Num (1 / 20))
   \<and> map_option locked_amount (worker (fst (projr (lock_tx cfg0 1 (db_of 5000 0 [])))) 1) =
       Some 5000
   \<and> Num (1 / 20) \<noteq> Num 5000"
  by (simp add: lock_tx_def db_of_def worker_of_def cfg0_def js_div_def Let_def)

text \<open>
  C2. The lock fails with \<open>NotFound\<close> when the worker does not exist and with
  \<open>InsufficientBalance\<close> when \<open>pending_amount\<close> is below 3000; in both cases the route
  answers with the error's message and returns the store and the queue it was given:
  no balance changes and no job is enqueued.
\<close>

theorem lock_failures:
  "(worker (store s) workerId = None \<longrightarrow>
      lock_tx cfg workerId (store s) = Inl NotFound
      \<and> post_payout cfg q workerId s = (s, Status500 (message NotFound)))
   \<and> (\<forall>w. worker (store s) workerId = Some w \<and> pending_amount w < 3000 \<longrightarrow>
      lock_tx cfg workerId (store s) = Inl InsufficientBalance
      \<and> post_payout cfg q workerId s = (s, Status500 (message InsufficientBalance)))"
  by (simp add: post_payout_def lock_tx_def)

theorem lock_failures_witness:
  "lock_tx cfg0 2 (store (sys_of 1000 0)) = Inl NotFound
   \<and> snd (post_payout cfg0 None 2 (sys_of 1000 0)) = Status500 ''Worker not found''
   \<and> payoutQueue (fst (post_payout cfg0 None 2 (sys_of 1000 0))) = []
   \<and> lock_tx cfg0 1 (store (sys_of 1000 0)) = Inl InsufficientBalance
   \<and> payoutQueue (fst (post_payout cfg0 None 1 (sys_of 1000 0))) = []
   \<and> map_option pending_amount
        (worker (store (fst (post_payout cfg0 None 1 (sys_of 1000 0)))) 1) = Some 1000"
proof -
  have n: "worker (store (sys_of 1000 0)) 2 = None"
    by (simp add: sys_of_def db_of_def)
  have w: "worker (store (sys_of 1000 0)) 1 = Some (worker_of 1000 0)
           \<and> pending_amount (worker_of 1000 0) < 3000"
    by (simp add: sys_of_def db_of_def worker_of_def)
  from lock_failures [of "sys_of 1000 0" 2 cfg0 None] n
  have a: "lock_tx cfg0 2 (store (sys_of 1000 0)) = Inl NotFound
           \<and> post_payout cfg0 None 2 (sys_of 1000 0) =
               (sys_of 1000 0, Status500 (message NotFound))"
    by blast
  from lock_failures [of "sys_of 1000 0" 1 cfg0 None] w
  have b: "lock_tx cfg0 1 (store (sys_of 1000 0)) = Inl InsufficientBalance
           \<and> post_payout cfg0 None 1 (sys_of 1000 0) =
               (sys_of 1000 0, Status500 (message InsufficientBalance))"
    by blast
  show ?thesis
    using a b by (simp add: sys_of_def db_of_def worker_of_def)
qed

section \<open>The read interfaces\<close>

text \<open>
  C9 (the code departs from the claim). For a worker with \<open>pending_amount = 1000\<close> and
  \<open>locked_amount = 5000\<close> the balance route reports 1000 as the pending amount and 1000
  as the locked amount: the second field is read from \<open>pending_amount\<close>. The route
  returns the store unchanged.
\<close>

theorem balance_reports_pending_as_locked:
  "snd (get_balance 1 (db_of 1000 5000 [])) =
     \<lparr>pendingAmount = Some 1000, lockedAmount = Some 1000\<rparr>
   \<and> map_option locked_amount (worker (db_of 1000 5000 []) 1) = Some 5000
   \<and> fst (get_balance 1 (db_of 1000 5000 [])) = db_of 1000 5000 []"
  by (simp add: get_balance_def db_of_def worker_of_def)

lemma total_earning_sum: "total_earning ps = sum_list (map amount ps)"
proof -
  have "foldl (\<lambda>t p. t + amount p) a ps = a + sum_list (map amount ps)" for a
    by (induction ps arbitrary: a) simp_all
  from this [of 0] show ?thesis by (simp add: total_earning_def)
qed

text \<open>
  C10. For every worker that exists, \<open>/me\<close> reports as earning the sum of the amounts of
  all payout rows of that worker, divided by \<open>TOTAL_DECIMALS\<close>. The status of a row plays
  no part: rewriting the statuses in any way leaves the reported earning as it is, so a
  row with status \<open>Failed\<close> counts like any other.
\<close>

theorem me_earning_sums_every_payout:
  assumes "worker d userId = Some u"
  shows "map_sum id earning (get_me cfg userId d) =
           Inr (js_div (sum_list (map amount (filter (\<lambda>p. worker_id p = userId) (payouts d))))
                  (TOTAL_DECIMALS cfg))
         \<and> map_sum id earning
             (get_me cfg userId (d\<lparr>payouts := map (\<lambda>p. p\<lparr>status := f (status p)\<rparr>) (payouts d)\<rparr>))
           = map_sum id earning (get_me cfg userId d)"
proof -
  have "sum_list (map amount (filter (\<lambda>p. worker_id p = userId)
                   (map (\<lambda>p. p\<lparr>status := f (status p)\<rparr>) ps))) =
        sum_list (map amount (filter (\<lambda>p. worker_id p = userId) ps))"
    for ps :: "payout_row list"
    by (induction ps) simp_all
  then show ?thesis
    using assms by (simp add: get_me_def total_earning_sum)
qed

theorem me_earning_sums_every_payout_witness:
  "map_sum id earning
     (get_me cfg0 1 (db_of 0 0
        [\<lparr>worker_id = 1, amount = 5000, status = Success, signature = ''SIG1''\<rparr>,
         \<lparr>worker_id = 2, amount = 9000, status = Success, signature = ''SIG2''\<rparr>,
         \<lparr>worker_id = 1, amount = 7000, status = Failed, signature = []\<rparr>]))
   = Inr (Num (3 / 25))"
proof -
  have w: "worker (db_of 0 0
        [\<lparr>worker_id = 1, amount = 5000, status = Success, signature = ''SIG1''\<rparr>,
         \<lparr>worker_id = 2, amount = 9000, status = Success, signature = ''SIG2''\<rparr>,
         \<lparr>worker_id = 1, amount = 7000, status = Failed, signature = []\<rparr>]) 1
        = Some (worker_of 0 0)"
    by (simp add: db_of_def)
  from me_earning_sums_every_payout [OF w, of cfg0 id]
  show ?thesis
    by (simp add: db_of_def cfg0_def js_div_def)
qed

section \<open>Share fetching\<close>

lemma foldl_on_reply:
  "foldl (on_reply l) (shares, logged) rs =
     (shares @ concat (map (fragments l) rs), logged @ concat (map failures rs))"
proof (induction rs arbitrary: shares logged)
  case Nil
  show ?case by simp
next
  case (Cons r rs)
  show ?case by (cases r) (simp_all add: Cons.IH)
qed

lemma mset_concat_map_cong:
  assumes "mset xs = mset ys"
  shows "mset (concat (map f xs)) = mset (concat (map f ys))"
proof -
  have "mset (concat (map f zs)) = sum_mset (image_mset (\<lambda>z. mset (f z)) (mset zs))" for zs
    by (induction zs) simp_all
  with assms show ?thesis by simp
qed

lemma replies_in_completion_order:
  assumes "mset ord = mset [0..<length reqs]"
  shows "mset (map (\<lambda>i. net w (reqs ! i)) (filter (\<lambda>i. i < length reqs) ord)) =
         mset (map (net w) reqs)"
proof -
  have "set ord = set [0..<length reqs]"
    using assms by (rule mset_eq_setD)
  then have "filter (\<lambda>i. i < length reqs) ord = ord"
    by (auto simp: filter_id_conv)
  moreover have "mset (map (\<lambda>i. net w (reqs ! i)) ord) =
                 mset (map (\<lambda>i. net w (reqs ! i)) [0..<length reqs])"
    using assms by (metis mset_map)
  moreover have "map (\<lambda>i. net w (reqs ! i)) [0..<length reqs] = map (net w) reqs"
    by (rule nth_equalityI) simp_all
  ultimately show ?thesis by simp
qed

text \<open>
  C7 (as amended). \<open>fetchShares\<close> issues exactly one request per configured endpoint,
  to the endpoint's \<open>/share\<close>, and always returns. When every request completes once,
  in whatever order, the result holds exactly the fragments of the endpoints that
  answered with a non-empty share string, whatever their number, and the log holds
  exactly the messages of the requests that were rejected or whose payload could not be
  read. An endpoint that answers without a share, or with an empty one, is passed over
  without a log entry.
\<close>

theorem fetchShares_collects_replies:
  "requested (fetchShares cfg l w) =
     map (\<lambda>endpoint. endpoint @ ''/share'') (DISTRIBUTED_SERVER_ENDPOINTS cfg)
   \<and> (mset (order w) = mset [0..<length (DISTRIBUTED_SERVER_ENDPOINTS cfg)] \<longrightarrow>
        mset (sharesArray (fetchShares cfg l w)) =
          mset (concat (map (\<lambda>u. fragments l (net w u)) (requested (fetchShares cfg l w))))
      \<and> mset (fetch_log (fetchShares cfg l w)) =
          mset (concat (map (\<lambda>u. failures (net w u)) (requested (fetchShares cfg l w)))))
   \<and> fragments l NoShare = [] \<and> failures NoShare = []
   \<and> fragments l (Share []) = [] \<and> failures (Share []) = []"
proof -
  let ?reqs = "map (\<lambda>endpoint. endpoint @ ''/share'') (DISTRIBUTED_SERVER_ENDPOINTS cfg)"
  let ?replies = "map (\<lambda>i. net w (?reqs ! i)) (filter (\<lambda>i. i < length ?reqs) (order w))"
  have req: "requested (fetchShares cfg l w) = ?reqs"
    by (simp add: fetchShares_def Let_def)
  have sh: "sharesArray (fetchShares cfg l w) = concat (map (fragments l) ?replies)"
    unfolding fetchShares_def Let_def foldl_on_reply by simp
  have lg: "fetch_log (fetchShares cfg l w) = concat (map failures ?replies)"
    unfolding fetchShares_def Let_def foldl_on_reply by simp
  have perm: "mset ?replies = mset (map (net w) ?reqs)"
    if "mset (order w) = mset [0..<length (DISTRIBUTED_SERVER_ENDPOINTS cfg)]"
    using that replies_in_completion_order [of "order w" ?reqs w] by simp
  have a: "mset (concat (map (fragments l) ?replies)) =
           mset (concat (map (\<lambda>u. fragments l (net w u)) ?reqs))"
    if "mset (order w) = mset [0..<length (DISTRIBUTED_SERVER_ENDPOINTS cfg)]"
    using mset_concat_map_cong [OF perm [OF that], of "fragments l"]
    by (simp only: map_map comp_def)
  have b: "mset (concat (map failures ?replies)) =
           mset (concat (map (\<lambda>u. failures (net w u)) ?reqs))"
    if "mset (order w) = mset [0..<length (DISTRIBUTED_SERVER_ENDPOINTS cfg)]"
    using mset_concat_map_cong [OF perm [OF that], of failures]
    by (simp only: map_map comp_def)
  show ?thesis
    unfolding req sh lg using a b by simp
qed

lemma order0: "mset [4, 2, 0, 3, 1] = mset [0..<length (DISTRIBUTED_SERVER_ENDPOINTS cfg0)]"
proof -
  have "[0..<length (DISTRIBUTED_SERVER_ENDPOINTS cfg0)] = [0, 1, 2, 3, 4]"
    by (simp add: cfg0_def upt_rec)
  then show ?thesis by (simp only: mset.simps add_mset_commute)
qed

lemma requests0:
  "map (\<lambda>endpoint. endpoint @ ''/share'') (DISTRIBUTED_SERVER_ENDPOINTS cfg0) =
     [''http://s1/share'', ''http://s2/share'', ''http://s3/share'', ''http://s4/share'',
      ''http://s5/share'']"
  by (simp add: cfg0_def)

theorem fetchShares_collects_replies_witness:
  "requested (fetchShares cfg0 lib0 worldC) =
     [''http://s1/share'', ''http://s2/share'', ''http://s3/share'', ''http://s4/share'',
      ''http://s5/share'']
   \<and> mset (sharesArray (fetchShares cfg0 lib0 worldC)) =
       mset [share0 3,
             share0 4,
             share0 5]
   \<and> mset (fetch_log (fetchShares cfg0 lib0 worldC)) =
       mset [''connect ECONNREFUSED'', ''connect ECONNREFUSED'']"
proof -
  have o: "mset (order worldC) = mset [0..<length (DISTRIBUTED_SERVER_ENDPOINTS cfg0)]"
    using order0 by (simp add: worldC_def world_of_def)
  have r: "requested (fetchShares cfg0 lib0 worldC) =
     [''http://s1/share'', ''http://s2/share'', ''http://s3/share'', ''http://s4/share'',
      ''http://s5/share'']"
    using fetchShares_collects_replies [of cfg0 lib0 worldC] by (simp add: requests0)
  have n: "net worldC = share_or_refuse [''http://s3/share'', ''http://s4/share'',
     ''http://s5/share'']"
    by (simp add: worldC_def world_of_def)
  from fetchShares_collects_replies [of cfg0 lib0 worldC] o
  show ?thesis
    unfolding r n
    by (simp add: share_or_refuse_def shares0_def lib0_def Number0_def share0_def
        add_mset_commute del: mset_upt)
qed

text \<open>
  C7 as stated fails where an endpoint answers with a payload that has no share: the
  fetch passes it over and logs nothing.
\<close>

theorem fetchShares_silent_counterexample:
  "net world_mute ''http://s1/share'' = NoShare
   \<and> fetch_log (fetchShares cfg0 lib0 world_mute) = []
   \<and> length (sharesArray (fetchShares cfg0 lib0 world_mute)) = 4"
  by (simp add: fetchShares_def requests0 world_mute_def world_of_def
      share_or_refuse_def shares0_def)


section \<open>Settlement\<close>

lemma settle_result:
  "fst (settle cfg l w workerId wk) =
     (case build_transaction cfg l wk of
        Inl e \<Rightarrow> Inl e
      | Inr tx \<Rightarrow>
          (case recoverPrivateKey cfg l (sharesArray (fetchShares cfg l w)) of
             Inl e \<Rightarrow> Inl e
           | Inr kp \<Rightarrow>
               (case sendTransaction w tx [kp] of
                  Inl m \<Rightarrow> Inl (External m)
                | Inr sig \<Rightarrow> Inr sig)))"
  by (simp add: settle_def Let_def split: sum.splits)

lemma settle_submitted:
  "submitted (snd (settle cfg l w workerId wk)) =
     (case build_transaction cfg l wk of
        Inl e \<Rightarrow> []
      | Inr tx \<Rightarrow>
          (case recoverPrivateKey cfg l (sharesArray (fetchShares cfg l w)) of
             Inl e \<Rightarrow> []
           | Inr kp \<Rightarrow> [(tx, [kp])]))"
  by (simp add: settle_def Let_def split: sum.splits)

lemma process_Queue_result:
  "result (process_Queue cfg l w workerId d) =
     (case worker d workerId of
        None \<Rightarrow> Inl WorkerMissing
      | Some wk \<Rightarrow> fst (settle cfg l w workerId wk))"
  by (simp add: process_Queue_def aborted_def split: option.splits prod.splits sum.splits)

lemma process_Queue_submitted:
  "submitted (did (process_Queue cfg l w workerId d)) =
     (case worker d workerId of
        None \<Rightarrow> []
      | Some wk \<Rightarrow> submitted (snd (settle cfg l w workerId wk)))"
  by (simp add: process_Queue_def aborted_def split: option.splits prod.splits sum.splits)

lemma process_Queue_aborted:
  assumes "result (process_Queue cfg l w workerId d) = Inl e"
  shows "store_after (process_Queue cfg l w workerId d) = d"
  using assms
  by (auto simp: process_Queue_def aborted_def split: option.splits prod.splits sum.splits)

lemma process_Queue_paid:
  assumes "worker d workerId = Some wk"
    and "result (process_Queue cfg l w workerId d) = Inr sig"
  shows "store_after (process_Queue cfg l w workerId d) =
           d\<lparr>worker := (worker d)(workerId \<mapsto> wk\<lparr>locked_amount := 0\<rparr>),
             payouts := payouts d @
               [\<lparr>worker_id = workerId, amount = locked_amount wk, status = Success,
                 signature = sig\<rparr>]\<rparr>"
  using assms
  by (auto simp: process_Queue_def aborted_def split: option.splits prod.splits sum.splits)

lemma build_transaction_Inr:
  assumes "build_transaction cfg l wk = Inr tx"
  shows "\<exists>parent. PARENT_WALLET_PUBLIC_KEY cfg = Some parent \<and> parent \<noteq> []
           \<and> tx = [\<lparr>fromPubkey = PublicKey parent, toPubkey = PublicKey (address wk),
                    lamports = js_div (1000000000 * locked_amount wk) (TOTAL_DECIMALS cfg)\<rparr>]"
  using assms
  by (auto simp: build_transaction_def new_PublicKey_def SystemProgram_transfer_def
      split: option.splits if_splits sum.splits)

subsection \<open>The concrete runs\<close>

lemma fetch_worldC:
  "sharesArray (fetchShares cfg0 lib0 worldC) =
     [share0 5,
      share0 3,
      share0 4]"
  by (simp add: fetchShares_def requests0 worldC_def world_of_def share_or_refuse_def
      shares0_def lib0_def Number0_def share0_def)

lemma fetch_worldD:
  "sharesArray (fetchShares cfg0 lib0 worldD) =
     [share0 5]"
  by (simp add: fetchShares_def requests0 worldD_def world_of_def share_or_refuse_def
      shares0_def lib0_def Number0_def share0_def)

lemma combine_key0:
  "i < 256 \<Longrightarrow>
   combine0 (share0 i # rest) = Some key0"
  by (simp add: combine0_def key0_def char_of_def bit_Suc_0_iff share0_def)

lemma recover_key0:
  assumes "i < 256"
  shows "try_recover lib0 (share0 i # rest) = Some (Keypair key0)"
proof -
  have "decode0 key0 = Some key0"
    by (simp add: decode0_def key0_def base58_def)
  moreover have "length key0 = 8"
    by (simp add: key0_def)
  ultimately show ?thesis
    unfolding try_recover_def
    by (simp add: lib0_def combine_key0 [OF assms] Buffer_toString_def
        Keypair_fromSecretKey_def)
qed

lemma recover_worldC:
  "recoverPrivateKey cfg0 lib0 (sharesArray (fetchShares cfg0 lib0 worldC)) = Inr (Keypair key0)"
  unfolding fetch_worldC recoverPrivateKey_def
  by (simp add: cfg0_def recover_key0)

lemma recover_worldD:
  "recoverPrivateKey cfg0 lib0 (sharesArray (fetchShares cfg0 lib0 worldD)) =
     Inl InsufficientShares"
  unfolding fetch_worldD recoverPrivateKey_def
  by (simp add: cfg0_def)

lemma build0:
  "build_transaction cfg0 lib0 (worker_of p k) =
     Inr [\<lparr>fromPubkey = PublicKey ''PARENT'', toPubkey = PublicKey ''WORKER'',
           lamports = Num (of_int (10000 * k))\<rparr>]"
  by (simp add: build_transaction_def cfg0_def lib0_def worker_of_def new_PublicKey_def
      SystemProgram_transfer_def js_div_def)

lemma result_worldC:
  "result (process_Queue cfg0 lib0 worldC 1 (db_of p k ps)) = Inr ''SIG1''"
proof -
  have "sendTransaction worldC t ks = Inr ''SIG1''" for t ks
    by (simp add: worldC_def world_of_def)
  then show ?thesis
    by (simp add: process_Queue_result settle_result db_of_def build0 recover_worldC)
qed

lemma result_worldD:
  "result (process_Queue cfg0 lib0 worldD 1 (db_of p k ps)) = Inl InsufficientShares"
  by (simp add: process_Queue_result settle_result db_of_def build0 recover_worldD)

subsection \<open>Failed jobs\<close>

text \<open>
  C4 (as amended). A job that fails at any stage (the worker is not found, the
  transaction cannot be built, too few shares arrive or they do not combine into a
  keypair, the submission is refused) ends with the error caught and logged, and leaves
  the record store exactly as it was: \<open>locked_amount\<close> is unchanged and no payout row
  of any status is written.
\<close>

theorem failed_job_leaves_store:
  "(\<forall>e. result (process_Queue cfg l w workerId d) = Inl e \<longrightarrow>
      store_after (process_Queue cfg l w workerId d) = d
      \<and> last (console (did (process_Queue cfg l w workerId d))) = Line (message e))
   \<and> (worker d workerId = None \<longrightarrow>
        result (process_Queue cfg l w workerId d) = Inl WorkerMissing
        \<and> store_after (process_Queue cfg l w workerId d) = d)
   \<and> (\<forall>wk e. worker d workerId = Some wk \<and> build_transaction cfg l wk = Inl e \<longrightarrow>
        result (process_Queue cfg l w workerId d) = Inl e
        \<and> store_after (process_Queue cfg l w workerId d) = d)
   \<and> (\<forall>wk tx. worker d workerId = Some wk \<and> build_transaction cfg l wk = Inr tx \<longrightarrow>
        (\<forall>e. recoverPrivateKey cfg l (sharesArray (fetchShares cfg l w)) = Inl e \<longrightarrow>
           result (process_Queue cfg l w workerId d) = Inl e
           \<and> store_after (process_Queue cfg l w workerId d) = d)
      \<and> (\<forall>kp m. recoverPrivateKey cfg l (sharesArray (fetchShares cfg l w)) = Inr kp
              \<and> sendTransaction w tx [kp] = Inl m \<longrightarrow>
           result (process_Queue cfg l w workerId d) = Inl (External m)
           \<and> store_after (process_Queue cfg l w workerId d) = d))"
proof -
  let ?r = "process_Queue cfg l w workerId d"
  have logged: "last (console (did ?r)) = Line (message e)" if "result ?r = Inl e" for e
    using that
    by (auto simp: process_Queue_def aborted_def split: option.splits prod.splits sum.splits)
  have kept: "store_after ?r = d" if "result ?r = Inl e" for e
    using that by (rule process_Queue_aborted)
  have missing: "result ?r = Inl WorkerMissing" if "worker d workerId = None"
    using that by (simp add: process_Queue_result)
  have unbuilt: "result ?r = Inl e"
    if "worker d workerId = Some wk" and "build_transaction cfg l wk = Inl e" for wk e
    using that by (simp add: process_Queue_result settle_result)
  have unrecovered: "result ?r = Inl e"
    if "worker d workerId = Some wk" and "build_transaction cfg l wk = Inr tx"
      and "recoverPrivateKey cfg l (sharesArray (fetchShares cfg l w)) = Inl e" for wk tx e
    using that by (simp add: process_Queue_result settle_result)
  have refused: "result ?r = Inl (External m)"
    if "worker d workerId = Some wk" and "build_transaction cfg l wk = Inr tx"
      and "recoverPrivateKey cfg l (sharesArray (fetchShares cfg l w)) = Inr kp"
      and "sendTransaction w tx [kp] = Inl m" for wk tx kp m
    using that by (simp add: process_Queue_result settle_result)
  show ?thesis
    using logged kept missing unbuilt unrecovered refused by blast
qed

theorem failed_job_leaves_store_witness:
  "result (process_Queue cfg0 lib0 worldD 1 (db_of 0 5000 [])) = Inl InsufficientShares
   \<and> map_option locked_amount
        (worker (store_after (process_Queue cfg0 lib0 worldD 1 (db_of 0 5000 []))) 1) = Some 5000
   \<and> last (console (did (process_Queue cfg0 lib0 worldD 1 (db_of 0 5000 [])))) =
        Line ''Minimum threshold required''
   \<and> result (process_Queue (cfg0\<lparr>PARENT_WALLET_PUBLIC_KEY := None\<rparr>) lib0 worldC 1
        (db_of 0 5000 [])) = Inl ParentKeyUnset
   \<and> map_option locked_amount
        (worker (store_after (process_Queue (cfg0\<lparr>PARENT_WALLET_PUBLIC_KEY := None\<rparr>) lib0
           worldC 1 (db_of 0 5000 []))) 1) = Some 5000
   \<and> result (process_Queue cfg0 lib0 worldC 2 (db_of 0 5000 [])) = Inl WorkerMissing"
proof -
  let ?unset = "cfg0\<lparr>PARENT_WALLET_PUBLIC_KEY := None\<rparr>"
  have w: "worker (db_of 0 5000 []) 1 = Some (worker_of 0 5000)"
    by (simp add: db_of_def)
  have n: "worker (db_of 0 5000 []) 2 = None"
    by (simp add: db_of_def)
  have u: "build_transaction ?unset lib0 (worker_of 0 5000) = Inl ParentKeyUnset"
    by (simp add: build_transaction_def)
  from failed_job_leaves_store [of cfg0 lib0 worldD 1 "db_of 0 5000 []"] w build0 recover_worldD
  have r: "result (process_Queue cfg0 lib0 worldD 1 (db_of 0 5000 [])) = Inl InsufficientShares"
    by blast
  with failed_job_leaves_store [of cfg0 lib0 worldD 1 "db_of 0 5000 []"]
  have s: "store_after (process_Queue cfg0 lib0 worldD 1 (db_of 0 5000 [])) = db_of 0 5000 []
        \<and> last (console (did (process_Queue cfg0 lib0 worldD 1 (db_of 0 5000 [])))) =
            Line (message InsufficientShares)"
    by blast
  from failed_job_leaves_store [of ?unset lib0 worldC 1 "db_of 0 5000 []"] w u
  have b: "result (process_Queue ?unset lib0 worldC 1 (db_of 0 5000 [])) = Inl ParentKeyUnset
        \<and> store_after (process_Queue ?unset lib0 worldC 1 (db_of 0 5000 [])) = db_of 0 5000 []"
    by blast
  from failed_job_leaves_store [of cfg0 lib0 worldC 2 "db_of 0 5000 []"] n
  have m: "result (process_Queue cfg0 lib0 worldC 2 (db_of 0 5000 [])) = Inl WorkerMissing"
    by blast
  from r s b m show ?thesis
    by (simp add: db_of_def worker_of_def)
qed

text \<open>
  C4 as stated fails in its last part: with five endpoints of which four are
  unreachable and a threshold of three, the job fails with \<open>InsufficientShares\<close> and
  the payout table stays empty; no row with status \<open>Failed\<close> is written.
\<close>

theorem failed_job_unrecorded_counterexample:
  "result (process_Queue cfg0 lib0 worldD 1 (db_of 0 5000 [])) = Inl InsufficientShares
   \<and> payouts (store_after (process_Queue cfg0 lib0 worldD 1 (db_of 0 5000 []))) = []"
proof -
  have "payouts (db_of 0 5000 []) = []"
    by (simp add: db_of_def)
  then show ?thesis
    by (simp only: result_worldD process_Queue_aborted [OF result_worldD] simp_thms)
qed

subsection \<open>Redelivered jobs\<close>

text \<open>
  C3 (as amended). When a job has been settled, processing it again finds
  \<open>locked_amount = 0\<close> and subtracts 0: the worker table after the replay is the worker
  table after the first run, so \<open>locked_amount\<close> is decremented only once. There is no
  guard on the signature: a replay that fails adds nothing to the payout table, and a
  replay whose submission is accepted appends one more payout row, with amount 0, status
  \<open>Success\<close> and the signature of the second submission.
\<close>

theorem replay_after_success:
  assumes "worker d workerId = Some wk"
    and "result (process_Queue cfg l w workerId d) = Inr sig"
  shows "worker (store_after (process_Queue cfg l w workerId d)) workerId =
           Some (wk\<lparr>locked_amount := 0\<rparr>)
       \<and> payouts (store_after (process_Queue cfg l w workerId d)) =
           payouts d @ [\<lparr>worker_id = workerId, amount = locked_amount wk, status = Success,
                         signature = sig\<rparr>]
       \<and> worker (store_after (process_Queue cfg l w' workerId
                    (store_after (process_Queue cfg l w workerId d)))) =
           worker (store_after (process_Queue cfg l w workerId d))
       \<and> payouts (store_after (process_Queue cfg l w' workerId
                    (store_after (process_Queue cfg l w workerId d)))) =
           payouts (store_after (process_Queue cfg l w workerId d)) @
           (case result (process_Queue cfg l w' workerId
                    (store_after (process_Queue cfg l w workerId d))) of
              Inl e \<Rightarrow> []
            | Inr sig' \<Rightarrow> [\<lparr>worker_id = workerId, amount = 0, status = Success,
                             signature = sig'\<rparr>])"
proof -
  let ?d1 = "store_after (process_Queue cfg l w workerId d)"
  let ?r2 = "process_Queue cfg l w' workerId ?d1"
  have d1: "?d1 = d\<lparr>worker := (worker d)(workerId \<mapsto> wk\<lparr>locked_amount := 0\<rparr>),
                    payouts := payouts d @
                      [\<lparr>worker_id = workerId, amount = locked_amount wk, status = Success,
                        signature = sig\<rparr>]\<rparr>"
    using assms by (rule process_Queue_paid)
  have w1: "worker ?d1 workerId = Some (wk\<lparr>locked_amount := 0\<rparr>)"
    by (simp add: d1)
  have p1: "payouts ?d1 = payouts d @
              [\<lparr>worker_id = workerId, amount = locked_amount wk, status = Success,
                signature = sig\<rparr>]"
    by (simp add: d1)
  have second: "worker (store_after ?r2) = worker ?d1
      \<and> payouts (store_after ?r2) = payouts ?d1 @
           (case result ?r2 of
              Inl e \<Rightarrow> []
            | Inr sig' \<Rightarrow> [\<lparr>worker_id = workerId, amount = 0, status = Success,
                             signature = sig'\<rparr>])"
  proof (cases "result ?r2")
    case (Inl e)
    then show ?thesis
      by (simp add: process_Queue_aborted)
  next
    case (Inr sig')
    from process_Queue_paid [OF w1 Inr]
    have "store_after ?r2 =
            ?d1\<lparr>worker := (worker ?d1)(workerId \<mapsto> wk\<lparr>locked_amount := 0\<rparr>),
                payouts := payouts ?d1 @
                  [\<lparr>worker_id = workerId, amount = 0, status = Success,
                    signature = sig'\<rparr>]\<rparr>"
      by simp
    moreover have "(worker ?d1)(workerId \<mapsto> wk\<lparr>locked_amount := 0\<rparr>) = worker ?d1"
      using w1 by (simp add: fun_upd_idem)
    ultimately show ?thesis
      using Inr by simp
  qed
  from w1 p1 second show ?thesis
    by blast
qed

lemma first_run_worldC:
  "store_after (process_Queue cfg0 lib0 worldC 1 (db_of 0 5000 [])) =
     (db_of 0 5000 [])\<lparr>worker := (worker (db_of 0 5000 []))(1 \<mapsto>
          (worker_of 0 5000)\<lparr>locked_amount := 0\<rparr>),
        payouts := payouts (db_of 0 5000 []) @
          [\<lparr>worker_id = 1, amount = locked_amount (worker_of 0 5000), status = Success,
            signature = ''SIG1''\<rparr>]\<rparr>"
proof -
  have "worker (db_of 0 5000 []) 1 = Some (worker_of 0 5000)"
    by (simp add: db_of_def)
  then show ?thesis
    using result_worldC by (rule process_Queue_paid)
qed

lemma first_run_worldC_db:
  "store_after (process_Queue cfg0 lib0 worldC 1 (db_of 0 5000 [])) =
     db_of 0 0 [\<lparr>worker_id = 1, amount = 5000, status = Success, signature = ''SIG1''\<rparr>]"
  unfolding first_run_worldC by (simp add: db_of_def worker_of_def)

theorem replay_after_success_witness:
  "map_option locked_amount
     (worker (store_after (process_Queue cfg0 lib0 worldC 1 (db_of 0 5000 []))) 1) = Some 0
   \<and> map_option locked_amount
     (worker (store_after (process_Queue cfg0 lib0 worldC 1
        (store_after (process_Queue cfg0 lib0 worldC 1 (db_of 0 5000 []))))) 1) = Some 0
   \<and> map amount (payouts (store_after (process_Queue cfg0 lib0 worldC 1
        (store_after (process_Queue cfg0 lib0 worldC 1 (db_of 0 5000 [])))))) = [5000, 0]"
proof -
  have w: "worker (db_of 0 5000 []) 1 = Some (worker_of 0 5000)"
    by (simp add: db_of_def)
  have r2: "result (process_Queue cfg0 lib0 worldC 1
              (store_after (process_Queue cfg0 lib0 worldC 1 (db_of 0 5000 [])))) = Inr ''SIG1''"
    unfolding first_run_worldC_db by (rule result_worldC)
  from replay_after_success [OF w result_worldC, of worldC]
  show ?thesis
    unfolding r2 by (simp add: db_of_def worker_of_def)
qed

text \<open>
  C3 as stated fails: in the run where every submission is accepted with the signature
  \<open>SIG1\<close>, the first processing writes one payout row and the replay of the same job
  writes a second one, so the replay does not leave the ledger state unchanged.
\<close>

theorem replay_appends_row_counterexample:
  "payouts (store_after (process_Queue cfg0 lib0 worldC 1 (db_of 0 5000 []))) =
     [\<lparr>worker_id = 1, amount = 5000, status = Success, signature = ''SIG1''\<rparr>]
   \<and> payouts (store_after (process_Queue cfg0 lib0 worldC 1
        (store_after (process_Queue cfg0 lib0 worldC 1 (db_of 0 5000 []))))) =
     [\<lparr>worker_id = 1, amount = 5000, status = Success, signature = ''SIG1''\<rparr>,
      \<lparr>worker_id = 1, amount = 0, status = Success, signature = ''SIG1''\<rparr>]"
proof -
  have w: "worker (db_of 0 0 ps) 1 = Some (worker_of 0 0)" for ps
    by (simp add: db_of_def)
  have "store_after (process_Queue cfg0 lib0 worldC 1 (db_of 0 0 ps)) =
          (db_of 0 0 ps)\<lparr>worker := (worker (db_of 0 0 ps))(1 \<mapsto>
               (worker_of 0 0)\<lparr>locked_amount := 0\<rparr>),
             payouts := payouts (db_of 0 0 ps) @
               [\<lparr>worker_id = 1, amount = locked_amount (worker_of 0 0), status = Success,
                 signature = ''SIG1''\<rparr>]\<rparr>" for ps
    using w result_worldC by (rule process_Queue_paid)
  then show ?thesis
    unfolding first_run_worldC_db by (simp add: db_of_def worker_of_def)
qed

subsection \<open>Key reconstruction inside a job\<close>

text \<open>
  C6. \<open>recoverPrivateKey\<close> fails with \<open>InsufficientShares\<close> when it is given fewer
  shares than the threshold; given enough shares it fails with \<open>CorruptShare\<close> exactly
  when combining, decoding or building the keypair fails, and otherwise returns the
  keypair of the decoded secret. When it fails on the fetched shares, the job submits
  nothing to the ledger, leaves the record store as it was and, if the transaction had
  been built, ends with that error.
\<close>

theorem recoverPrivateKey_failures:
  "(length shares < THRESHOLD cfg \<longrightarrow>
      recoverPrivateKey cfg l shares = Inl InsufficientShares)
   \<and> (THRESHOLD cfg \<le> length shares \<longrightarrow>
        (recoverPrivateKey cfg l shares = Inl CorruptShare
           \<or> (\<exists>b sk. sss_combine l shares = Some b
                  \<and> bs58_decode l (Buffer_toString b) = Some sk \<and> valid_secretKey l sk
                  \<and> recoverPrivateKey cfg l shares = Inr (Keypair sk)))
      \<and> (recoverPrivateKey cfg l shares = Inl CorruptShare \<longleftrightarrow>
           \<not> (\<exists>b sk. sss_combine l shares = Some b
                  \<and> bs58_decode l (Buffer_toString b) = Some sk \<and> valid_secretKey l sk)))
   \<and> (\<forall>e. recoverPrivateKey cfg l (sharesArray (fetchShares cfg l w)) = Inl e \<longrightarrow>
        submitted (did (process_Queue cfg l w workerId d)) = []
      \<and> store_after (process_Queue cfg l w workerId d) = d
      \<and> (\<forall>wk tx. worker d workerId = Some wk \<and> build_transaction cfg l wk = Inr tx \<longrightarrow>
           result (process_Queue cfg l w workerId d) = Inl e))"
proof -
  have a: "length shares < THRESHOLD cfg \<longrightarrow>
           recoverPrivateKey cfg l shares = Inl InsufficientShares"
    by (simp add: recoverPrivateKey_def)
  have b: "THRESHOLD cfg \<le> length shares \<longrightarrow>
        (recoverPrivateKey cfg l shares = Inl CorruptShare
           \<or> (\<exists>b sk. sss_combine l shares = Some b
                  \<and> bs58_decode l (Buffer_toString b) = Some sk \<and> valid_secretKey l sk
                  \<and> recoverPrivateKey cfg l shares = Inr (Keypair sk)))
      \<and> (recoverPrivateKey cfg l shares = Inl CorruptShare \<longleftrightarrow>
           \<not> (\<exists>b sk. sss_combine l shares = Some b
                  \<and> bs58_decode l (Buffer_toString b) = Some sk \<and> valid_secretKey l sk))"
    by (auto simp: recoverPrivateKey_def try_recover_def Keypair_fromSecretKey_def
        split: option.splits)
  have c: "submitted (did (process_Queue cfg l w workerId d)) = []
      \<and> store_after (process_Queue cfg l w workerId d) = d
      \<and> (\<forall>wk tx. worker d workerId = Some wk \<and> build_transaction cfg l wk = Inr tx \<longrightarrow>
           result (process_Queue cfg l w workerId d) = Inl e)"
    if f: "recoverPrivateKey cfg l (sharesArray (fetchShares cfg l w)) = Inl e" for e
  proof -
    have s: "submitted (did (process_Queue cfg l w workerId d)) = []"
      by (simp add: process_Queue_submitted settle_submitted f
          split: option.splits sum.splits)
    have "\<exists>e'. result (process_Queue cfg l w workerId d) = Inl e'"
      by (simp add: process_Queue_result settle_result f split: option.splits sum.splits)
    then have t: "store_after (process_Queue cfg l w workerId d) = d"
      by (auto intro: process_Queue_aborted)
    have "result (process_Queue cfg l w workerId d) = Inl e"
      if "worker d workerId = Some wk" and "build_transaction cfg l wk = Inr tx" for wk tx
      using that by (simp add: process_Queue_result settle_result f)
    with s t show ?thesis by blast
  qed
  from a b c show ?thesis by blast
qed

theorem recoverPrivateKey_failures_witness:
  "recoverPrivateKey cfg0 lib0 [share0 5] = Inl InsufficientShares
   \<and> recoverPrivateKey cfg0 lib0 [[NaN], share0 3, share0 4] = Inl CorruptShare
   \<and> recoverPrivateKey cfg0 lib0 [share0 5, share0 3, share0 4] = Inr (Keypair key0)
   \<and> submitted (did (process_Queue cfg0 lib0 worldD 1 (db_of 0 5000 []))) = []
   \<and> result (process_Queue cfg0 lib0 worldD 1 (db_of 0 5000 [])) = Inl InsufficientShares"
proof -
  have l1: "length [share0 5] < THRESHOLD cfg0"
    by (simp add: cfg0_def)
  have l3: "THRESHOLD cfg0 \<le> length [[NaN], share0 3, share0 4]"
    by (simp add: cfg0_def)
  have bad: "sss_combine lib0 [[NaN], share0 3, share0 4] = None"
    by (simp add: lib0_def combine0_def)
  have good: "recoverPrivateKey cfg0 lib0 [share0 5, share0 3, share0 4] = Inr (Keypair key0)"
    by (simp add: recoverPrivateKey_def cfg0_def recover_key0)
  have w: "worker (db_of 0 5000 []) 1 = Some (worker_of 0 5000)"
    by (simp add: db_of_def)
  from recoverPrivateKey_failures [of "[share0 5]" cfg0 lib0 worldD 1 "db_of 0 5000 []"] l1
  have a: "recoverPrivateKey cfg0 lib0 [share0 5] = Inl InsufficientShares"
    by blast
  from recoverPrivateKey_failures [of "[[NaN], share0 3, share0 4]" cfg0 lib0 worldD 1
      "db_of 0 5000 []"] l3 bad
  have b: "recoverPrivateKey cfg0 lib0 [[NaN], share0 3, share0 4] = Inl CorruptShare"
    by simp
  from recoverPrivateKey_failures [of "[share0 5]" cfg0 lib0 worldD 1 "db_of 0 5000 []"]
    recover_worldD w build0
  have c: "submitted (did (process_Queue cfg0 lib0 worldD 1 (db_of 0 5000 []))) = []
           \<and> result (process_Queue cfg0 lib0 worldD 1 (db_of 0 5000 [])) = Inl InsufficientShares"
    by blast
  from a b good c show ?thesis by blast
qed

subsection \<open>The amount submitted\<close>

text \<open>
  C8. Whenever a job submits a transaction to the ledger, the worker exists, the
  transaction is the single transfer from the parent wallet to the worker's address,
  and its amount is \<open>1000000000 * locked_amount / TOTAL_DECIMALS\<close>, computed from the
  \<open>locked_amount\<close> read at the start of the job: the exact quotient when
  \<open>TOTAL_DECIMALS\<close> is not zero.
\<close>

theorem submitted_lamports:
  assumes "(tx, signers) \<in> set (submitted (did (process_Queue cfg l w workerId d)))"
  shows "\<exists>wk parent. worker d workerId = Some wk
           \<and> PARENT_WALLET_PUBLIC_KEY cfg = Some parent
           \<and> tx = [\<lparr>fromPubkey = PublicKey parent, toPubkey = PublicKey (address wk),
                    lamports = js_div (1000000000 * locked_amount wk) (TOTAL_DECIMALS cfg)\<rparr>]
           \<and> (TOTAL_DECIMALS cfg \<noteq> 0 \<longrightarrow>
                map lamports tx =
                  [Num (1000000000 * of_int (locked_amount wk) / of_int (TOTAL_DECIMALS cfg))])"
proof -
  from assms obtain wk where wk: "worker d workerId = Some wk"
    by (cases "worker d workerId") (simp_all add: process_Queue_submitted)
  with assms have "(tx, signers) \<in> set (submitted (snd (settle cfg l w workerId wk)))"
    by (simp add: process_Queue_submitted)
  then have "build_transaction cfg l wk = Inr tx"
    by (auto simp: settle_submitted split: sum.splits)
  from build_transaction_Inr [OF this] obtain parent where
    p: "PARENT_WALLET_PUBLIC_KEY cfg = Some parent"
    and t: "tx = [\<lparr>fromPubkey = PublicKey parent, toPubkey = PublicKey (address wk),
                  lamports = js_div (1000000000 * locked_amount wk) (TOTAL_DECIMALS cfg)\<rparr>]"
    by blast
  have q: "map lamports tx =
          [Num (1000000000 * of_int (locked_amount wk) / of_int (TOTAL_DECIMALS cfg))]"
    if "TOTAL_DECIMALS cfg \<noteq> 0"
    using that by (simp add: t js_div_def)
  show ?thesis
  proof (intro exI conjI impI)
    show "worker d workerId = Some wk" by (rule wk)
    show "PARENT_WALLET_PUBLIC_KEY cfg = Some parent" by (rule p)
    show "tx = [\<lparr>fromPubkey = PublicKey parent, toPubkey = PublicKey (address wk),
                  lamports = js_div (1000000000 * locked_amount wk) (TOTAL_DECIMALS cfg)\<rparr>]"
      by (rule t)
    show "map lamports tx =
          [Num (1000000000 * of_int (locked_amount wk) / of_int (TOTAL_DECIMALS cfg))]"
      if "TOTAL_DECIMALS cfg \<noteq> 0"
      using that by (rule q)
  qed
qed

theorem submitted_lamports_witness:
  "submitted (did (process_Queue cfg0 lib0 worldC 1 (db_of 0 5000 []))) =
     [([\<lparr>fromPubkey = PublicKey ''PARENT'', toPubkey = PublicKey ''WORKER'',
          lamports = Num 50000000\<rparr>], [Keypair key0])]"
proof -
  have w: "worker (db_of 0 5000 []) 1 = Some (worker_of 0 5000)"
    by (simp add: db_of_def)
  have s: "submitted (did (process_Queue cfg0 lib0 worldC 1 (db_of 0 5000 []))) =
             [([\<lparr>fromPubkey = PublicKey ''PARENT'', toPubkey = PublicKey ''WORKER'',
                  lamports = Num (of_int (10000 * 5000))\<rparr>], [Keypair key0])]"
    by (simp add: process_Queue_submitted settle_submitted w build0 recover_worldC)
  then have "([\<lparr>fromPubkey = PublicKey ''PARENT'', toPubkey = PublicKey ''WORKER'',
                 lamports = Num (of_int (10000 * 5000))\<rparr>], [Keypair key0])
             \<in> set (submitted (did (process_Queue cfg0 lib0 worldC 1 (db_of 0 5000 []))))"
    by simp
  from submitted_lamports [OF this] w
  have "map lamports [\<lparr>fromPubkey = PublicKey ''PARENT'', toPubkey = PublicKey ''WORKER'',
                 lamports = Num (of_int (10000 * 5000))\<rparr>] = [Num 50000000]"
    by (auto simp: cfg0_def worker_of_def)
  with s show ?thesis by simp
qed

section \<open>Share creation and key reconstruction\<close>

lemma createShares_file:
  "createShares l cfg seed privateKey =
     (''./src/sss/.env'',
      concat (map (\<lambda>si. env_entry [] si)
        (zip (created_shares l cfg seed privateKey)
           [0..<length (created_shares l cfg seed privateKey)])))"
proof -
  have e: "env_entry data si = data @ env_entry [] si" for data si
    by (simp add: env_entry_def Let_def)
  have "foldl env_entry data xs = data @ concat (map (\<lambda>si. env_entry [] si) xs)" for data xs
  proof (induction xs arbitrary: data)
    case Nil
    show ?case by simp
  next
    case (Cons x xs)
    show ?case by (simp add: Cons.IH e [of data x])
  qed
  from this [of "[]"] show ?thesis
    by (simp add: createShares_def Let_def)
qed

lemma byte_of_share_numbers: "those (map byte_of (share_numbers b)) = Some b"
proof (induction b)
  case Nil
  show ?case by (simp add: share_numbers_def)
next
  case (Cons c b)
  have "(of_char c :: nat) < 256"
    by simp
  then have "byte_of (Num (of_nat (of_char c))) = Some c"
    by simp
  with Cons show ?case
    by (simp add: share_numbers_def)
qed

text \<open>
  The text of a share written by \<open>createShares\<close> is read back by \<open>fetchShares\<close> as
  the numbers of the share's bytes, provided \<open>Number\<close> reads the decimal numerals
  below 256.
\<close>

lemma decimal_no_comma: "CHR '','' \<notin> set (decimal n)"
proof (induction n rule: decimal.induct)
  case (1 n)
  have d: "char_of (48 + k) \<noteq> CHR '',''" if "k < 10" for k :: nat
    using that by (simp add: char_of_eq_iff take_bit_eq_mod)
  show ?case
  proof (cases "n < 10")
    case True
    then show ?thesis
      using d [of n] by (subst decimal.simps) simp
  next
    case False
    then show ?thesis
      using 1 d [of "n mod 10"] by (subst decimal.simps) auto
  qed
qed

lemma decimal_not_empty: "decimal n \<noteq> []"
  by (subst decimal.simps) simp

lemma split_comma_plain:
  "CHR '','' \<notin> set x \<Longrightarrow> split_comma x = [x]"
  by (induction x) auto

lemma split_comma_append:
  "CHR '','' \<notin> set x \<Longrightarrow> split_comma (x @ CHR '','' # rest) = x # split_comma rest"
  by (induction x) auto

lemma split_comma_join:
  assumes "xs \<noteq> []" and "\<forall>x \<in> set xs. CHR '','' \<notin> set x"
  shows "split_comma (join_comma xs) = xs"
  using assms
proof (induction xs rule: join_comma.induct)
  case 1
  then show ?case by simp
next
  case (2 x)
  then show ?case by (simp add: split_comma_plain)
next
  case (3 x y ys)
  then show ?case by (simp add: split_comma_append)
qed

lemma join_comma_not_empty:
  "xs \<noteq> [] \<Longrightarrow> \<forall>x \<in> set xs. x \<noteq> [] \<Longrightarrow> join_comma xs \<noteq> []"
  by (induction xs rule: join_comma.induct) simp_all

lemma share_text_round_trip:
  assumes "b \<noteq> []" and "\<forall>n < 256. js_Number l (decimal n) = Num (of_nat n)"
  shows "fragments l (Share (Uint8Array_toString b)) = [share_numbers b]"
proof -
  let ?ds = "map (\<lambda>c. decimal (of_char c)) b"
  have ne: "?ds \<noteq> []"
    using assms(1) by simp
  have "join_comma ?ds \<noteq> []"
    using ne by (rule join_comma_not_empty) (simp add: decimal_not_empty)
  moreover have "split_comma (join_comma ?ds) = ?ds"
    using ne by (rule split_comma_join) (simp add: decimal_no_comma)
  moreover have "map (js_Number l) ?ds = share_numbers b"
    using assms(2) by (simp add: share_numbers_def)
  ultimately show ?thesis
    by (simp add: Uint8Array_toString_def)
qed


subsection \<open>Interpolation\<close>

lemma length_quot: "length (quot a cs) = length cs - 1"
  by (induction a cs rule: quot.induct) simp_all

lemma quot_factor: "poly_eval cs x - poly_eval cs a = (x - a) * poly_eval (quot a cs) x"
proof (induction a cs rule: quot.induct)
  case (1 a)
  show ?case by simp
next
  case (2 a c)
  show ?case by simp
next
  case (3 a c d ds)
  have "poly_eval (c # d # ds) x - poly_eval (c # d # ds) a =
        (x - a) * poly_eval (d # ds) a + x * (poly_eval (d # ds) x - poly_eval (d # ds) a)"
    by (simp add: algebra_simps)
  also have "\<dots> = (x - a) * poly_eval (d # ds) a + x * ((x - a) * poly_eval (quot a (d # ds)) x)"
    by (simp only: 3)
  also have "\<dots> = (x - a) * poly_eval (quot a (c # d # ds)) x"
    by (simp add: algebra_simps)
  finally show ?case .
qed

lemma recon_correct:
  assumes "\<forall>a. a \<noteq> 0 \<longrightarrow> a * rcp a = 1"
    and "distinct (map fst pts)"
    and "\<forall>p \<in> set pts. snd p = poly_eval cs (fst p)"
    and "length cs \<le> length pts"
  shows "recon rcp pts = poly_eval cs 0"
  using assms
proof (induction rcp pts arbitrary: cs rule: recon.induct)
  case (1 rcp)
  then show ?case by simp
next
  case (2 rcp p pts)
  let ?qs = "map (step rcp p) pts"
  let ?cs' = "quot (fst p) cs"
  have fst_qs: "map fst ?qs = map fst pts"
    by (simp add: step_def comp_def)
  from 2(3) have "distinct (map fst pts)"
    by simp
  then have d: "distinct (map fst ?qs)"
    by (simp only: fst_qs)
  have v: "\<forall>q \<in> set ?qs. snd q = poly_eval ?cs' (fst q)"
  proof
    fix q assume "q \<in> set ?qs"
    then obtain r where r: "r \<in> set pts" and q: "q = step rcp p r"
      by auto
    from 2(3) have "fst p \<notin> fst ` set pts"
      by simp
    with r have "fst r \<noteq> fst p"
      by (metis imageI)
    then have "fst r - fst p \<noteq> 0"
      by simp
    with 2(2) have one: "(fst r - fst p) * rcp (fst r - fst p) = 1"
      by blast
    from r 2(4) have "snd r - snd p = poly_eval cs (fst r) - poly_eval cs (fst p)"
      by simp
    also have "\<dots> = (fst r - fst p) * poly_eval ?cs' (fst r)"
      by (rule quot_factor)
    finally have e: "(snd r - snd p) * rcp (fst r - fst p) =
                  ((fst r - fst p) * rcp (fst r - fst p)) * poly_eval ?cs' (fst r)"
      by (simp add: mult_ac)
    have "snd q = (snd r - snd p) * rcp (fst r - fst p)"
      by (simp add: q step_def)
    also have "\<dots> = poly_eval ?cs' (fst r)"
      by (simp only: e one mult_1_left)
    finally show "snd q = poly_eval ?cs' (fst q)"
      by (simp add: q step_def)
  qed
  have l: "length ?cs' \<le> length ?qs"
    using 2(5) by (simp add: length_quot)
  from 2(1) [OF 2(2) d v l] have "recon rcp ?qs = poly_eval ?cs' 0" .
  moreover have "poly_eval cs 0 - poly_eval cs (fst p) = (0 - fst p) * poly_eval ?cs' 0"
    by (rule quot_factor)
  moreover have "snd p = poly_eval cs (fst p)"
    using 2(4) by simp
  ultimately show ?case
    by (simp add: algebra_simps)
qed

subsection \<open>Arithmetic modulo 257\<close>

lemma to_nat_less: "to_nat v < 257"
  using bit1.Rep_less_n [of v] by (simp add: to_nat_def)

lemma of_nat_to_nat: "of_nat (to_nat v) = v"
proof -
  have "0 \<le> Rep_bit1 v"
    using Rep_bit1 [of v] by simp
  then have "int (to_nat v) mod 257 = Rep_bit1 v"
    using bit1.Rep_less_n [of v] by (simp add: to_nat_def)
  then show ?thesis
    using bit1.of_nat_eq [of "to_nat v", where 'a = "128"] by (simp add: bit1.Rep_inverse)
qed

lemma to_nat_of_nat: "to_nat (of_nat k) = k mod 257"
proof -
  have "Rep_bit1 (of_nat k :: gf) = int k mod 257"
    using bit1.Rep_Abs_mod [of "int k", where 'a = "128"]
    by (simp add: bit1.of_nat_eq)
  then show ?thesis
    by (simp add: to_nat_def nat_mod_distrib)
qed

lemma of_nat_eq_iff_gf: "(of_nat a :: gf) = of_nat b \<longleftrightarrow> a mod 257 = b mod 257"
  by (metis to_nat_of_nat of_nat_to_nat)

lemma no_small_divisor:
  assumes "2 \<le> q" and "q \<le> 16"
  shows "\<not> q dvd (257::nat)"
proof -
  from assms have "q = 2 \<or> q = 3 \<or> q = 4 \<or> q = 5 \<or> q = 6 \<or> q = 7 \<or> q = 8 \<or> q = 9
      \<or> q = 10 \<or> q = 11 \<or> q = 12 \<or> q = 13 \<or> q = 14 \<or> q = 15 \<or> q = 16"
    by arith
  then show ?thesis
    by auto
qed

lemma divisors_257:
  assumes "g dvd (257::nat)"
  shows "g = 1 \<or> g = 257"
proof -
  from assms obtain q where q: "257 = g * q"
    by (auto simp: dvd_def)
  have g0: "g \<noteq> 0"
    using q by (intro notI) simp
  have q0: "q \<noteq> 0"
    using q by (intro notI) simp
  show ?thesis
  proof (cases "g \<le> 16")
    case True
    with assms no_small_divisor [of g] g0 show ?thesis
      by (cases "g = 1") auto
  next
    case False
    then have "17 * q \<le> g * q"
      by simp
    with q have "q \<le> 15"
      by simp
    moreover have "q dvd 257"
      unfolding q by (rule dvd_triv_right)
    ultimately have "q = 1"
      using no_small_divisor [of q] q0 by (cases "q = 1") auto
    with q show ?thesis
      by simp
  qed
qed

lemma inverse_exists:
  assumes "0 < r" and "r < 257"
  shows "\<exists>b \<in> set [1..<257]. (b * r) mod 257 = 1"
proof -
  have "gcd r 257 dvd 257"
    by simp
  then have "gcd r 257 = 1 \<or> gcd r 257 = 257"
    by (rule divisors_257)
  moreover have "gcd r 257 \<le> r"
    using assms(1) by simp
  ultimately have g: "gcd r 257 = 1"
    using assms(2) by auto
  from assms(1) have "r \<noteq> 0"
    by simp
  from bezout_nat [OF this, of 257] g obtain x y where xy: "r * x = 257 * y + 1"
    by auto
  then have "(r * x) mod 257 = 1"
    by simp
  moreover have "((x mod 257) * r) mod 257 = (x * r) mod 257"
    by (rule mod_mult_left_eq)
  ultimately have m: "((x mod 257) * r) mod 257 = 1"
    by (simp add: mult.commute)
  then have "x mod 257 \<noteq> 0"
    by (metis mod_0 mult_zero_left zero_neq_one)
  then have "x mod 257 \<in> set [1..<257]"
    by simp
  with m show ?thesis
    by blast
qed

lemma inv_nat_correct:
  assumes "0 < r" and "r < 257"
  shows "(inv_nat r * r) mod 257 = 1"
proof (cases "find (\<lambda>b. (b * r) mod 257 = 1) [1..<257]")
  case None
  with inverse_exists [OF assms] show ?thesis
    by (simp add: find_None_iff)
next
  case (Some b)
  then have "(b * r) mod 257 = 1"
    by (auto simp: find_Some_iff)
  with Some show ?thesis
    by (simp add: inv_nat_def)
qed

lemma gf_inv_correct:
  assumes "v \<noteq> 0"
  shows "v * gf_inv v = 1"
proof -
  have "to_nat v \<noteq> 0"
    using assms of_nat_to_nat [of v] by (metis of_nat_0)
  then have "(inv_nat (to_nat v) * to_nat v) mod 257 = 1"
    using to_nat_less [of v] by (simp add: inv_nat_correct)
  then have "(inv_nat (to_nat v) * to_nat v) mod 257 = 1 mod 257"
    by simp
  then have "(of_nat (inv_nat (to_nat v) * to_nat v) :: gf) = of_nat 1"
    by (simp only: of_nat_eq_iff_gf)
  then have "(of_nat (inv_nat (to_nat v)) :: gf) * of_nat (to_nat v) = 1"
    by (simp only: of_nat_mult of_nat_1)
  then show ?thesis
    by (metis gf_inv_def of_nat_to_nat mult.commute)
qed

subsection \<open>Splitting and combining\<close>

lemma decode_pair:
  "(of_nat (256 * of_char (char_of (to_nat v div 256)) + of_char (char_of (to_nat v mod 256)))
      :: gf) = v"
proof -
  have "to_nat v div 256 < 256"
    using to_nat_less [of v] by simp
  then have "256 * (of_char (char_of (to_nat v div 256)) :: nat)
          + of_char (char_of (to_nat v mod 256)) = to_nat v"
    by simp
  then show ?thesis
    by (simp only: of_nat_to_nat)
qed

lemma decode_encode: "decode_values (concat (map encode_value vs)) = Some vs"
proof (induction vs)
  case Nil
  show ?case by simp
next
  case (Cons v vs)
  have "decode_values (concat (map encode_value (v # vs))) =
        decode_values (char_of (to_nat v div 256) # char_of (to_nat v mod 256) #
          concat (map encode_value vs))"
    by (simp add: encode_value_def [of v] del: char_of_mod_256)
  also have "\<dots> = Some (v # vs)"
    by (simp only: decode_values.simps Cons decode_pair option.map)
  finally show ?case .
qed

lemma parse_shamir_share:
  assumes "x < 256"
  shows "parse_share (share_numbers (shamir_share secret k seed x)) =
           Some (of_nat x, share_values secret k seed x)"
  using assms
  by (simp add: parse_share_def byte_of_share_numbers shamir_share_def decode_encode)

lemma those_map_Some:
  "\<forall>x \<in> set xs. f x = Some (g x) \<Longrightarrow> those (map f xs) = Some (map g xs)"
  by (induction xs) simp_all

lemma selection_of_map:
  assumes "set sel \<subseteq> set (map f xs)"
  shows "\<exists>ys. sel = map f ys \<and> set ys \<subseteq> set xs"
  using assms
proof (induction sel)
  case Nil
  show ?case by simp
next
  case (Cons s sel)
  then obtain ys where ys: "sel = map f ys" "set ys \<subseteq> set xs"
    by auto
  from Cons.prems obtain y where "y \<in> set xs" "s = f y"
    by auto
  with ys have "s # sel = map f (y # ys) \<and> set (y # ys) \<subseteq> set xs"
    by simp
  then show ?case
    by (rule exI)
qed

lemma of_nat_inj_gf:
  assumes "a < 257" and "b < 257" and "(of_nat a :: gf) = of_nat b"
  shows "a = b"
  using assms by (simp add: of_nat_eq_iff_gf)

lemma to_byte_of_char: "to_byte (of_nat (of_char c)) = c"
proof -
  have "(of_char c :: nat) < 256"
    by simp
  then have "(of_char c :: nat) < 257"
    by (rule order_less_trans) simp
  then show ?thesis
    by (simp add: to_byte_def to_nat_of_nat)
qed

lemma length_coefficients: "0 < k \<Longrightarrow> length (coefficients secret k seed i) = k"
  by (simp add: coefficients_def)

lemma secret_byte:
  "poly_eval (coefficients secret k seed i) 0 = of_nat (of_char (secret ! i))"
  by (simp add: coefficients_def)

lemma shamir_share_inj:
  assumes "x < 256" and "y < 256" and "shamir_share secret k seed x = shamir_share secret k seed y"
  shows "x = y"
proof -
  from assms(3) have "char_of x = char_of y"
    by (simp add: shamir_share_def)
  with assms(1,2) show ?thesis
    by simp
qed

lemma shamir_split_shares:
  assumes "n \<le> 255"
  shows "length (shamir_split secret n k seed) = n"
    and "distinct (shamir_split secret n k seed)"
proof -
  show "length (shamir_split secret n k seed) = n"
    by (simp add: shamir_split_def)
  have "inj_on (shamir_share secret k seed) (set [1..<Suc n])"
    using assms by (intro inj_onI shamir_share_inj) auto
  then show "distinct (shamir_split secret n k seed)"
    by (simp add: shamir_split_def distinct_map)
qed

lemma shamir_combine_selection:
  assumes k: "0 < k" and n: "n \<le> 255"
    and d: "distinct sel"
    and s: "set sel \<subseteq> set (shamir_split secret n k seed)"
    and l: "k \<le> length sel"
  shows "shamir_combine (map share_numbers sel) = Some secret"
proof -
  let ?f = "shamir_share secret k seed"
  let ?g = "\<lambda>x. (of_nat x :: gf, share_values secret k seed x)"
  from s obtain xs where sel: "sel = map ?f xs" and xs: "set xs \<subseteq> set [1..<Suc n]"
    unfolding shamir_split_def by (blast dest: selection_of_map)
  from xs n have small: "\<forall>x \<in> set xs. x < 256"
    by auto
  from d have dxs: "distinct xs"
    by (simp add: sel distinct_map)
  from l k have ne: "xs \<noteq> []"
    by (auto simp: sel)
  let ?pts = "map ?g xs"
  have parsed: "those (map parse_share (map share_numbers sel)) = Some ?pts"
  proof -
    have "\<forall>x \<in> set xs. parse_share (share_numbers (?f x)) = Some (?g x)"
      using small by (simp add: parse_shamir_share)
    then have "those (map (\<lambda>x. parse_share (share_numbers (?f x))) xs) = Some ?pts"
      by (rule those_map_Some)
    then show ?thesis
      by (simp add: sel comp_def)
  qed
  have fsts: "map fst ?pts = map of_nat xs"
    by (simp add: comp_def)
  have "inj_on (of_nat :: nat \<Rightarrow> gf) (set xs)"
  proof (rule inj_onI)
    fix a b assume "a \<in> set xs" "b \<in> set xs" "(of_nat a :: gf) = of_nat b"
    with small show "a = b"
      by (intro of_nat_inj_gf [of a b]) auto
  qed
  with dxs have dist: "distinct (map fst ?pts)"
    by (simp only: fsts distinct_map)
  have lens: "list_all (\<lambda>q. length (snd q) = length secret) ?pts"
    by (simp add: list_all_iff share_values_def)
  have hd_len: "length (snd (hd ?pts)) = length secret"
    using ne by (simp add: hd_map share_values_def)
  have byte: "to_byte (recon gf_inv (map (\<lambda>q. (fst q, snd q ! i)) ?pts)) = secret ! i"
    if i: "i < length secret" for i
  proof -
    let ?cs = "coefficients secret k seed i"
    let ?qs = "map (\<lambda>q. (fst q, snd q ! i)) ?pts"
    have qs: "?qs = map (\<lambda>x. (of_nat x, poly_eval ?cs (of_nat x))) xs"
      using i by (simp add: share_values_def)
    have "distinct (map fst ?qs)"
      using dist by (simp add: comp_def)
    moreover have "\<forall>p \<in> set ?qs. snd p = poly_eval ?cs (fst p)"
      unfolding qs by simp
    moreover have "length ?cs \<le> length ?qs"
      using l k by (simp add: length_coefficients sel)
    moreover have "\<forall>a. a \<noteq> 0 \<longrightarrow> a * gf_inv a = 1"
      by (simp add: gf_inv_correct)
    ultimately have "recon gf_inv ?qs = poly_eval ?cs 0"
      by (intro recon_correct) 
    then show ?thesis
      by (simp only: secret_byte to_byte_of_char)
  qed
  have "map (\<lambda>i. to_byte (recon gf_inv (map (\<lambda>q. (fst q, snd q ! i)) ?pts)))
          [0..<length secret] = map (\<lambda>i. secret ! i) [0..<length secret]"
    using byte by simp
  also have "\<dots> = secret"
    by (rule map_nth)
  finally have bytes: "map (\<lambda>i. to_byte (recon gf_inv (map (\<lambda>q. (fst q, snd q ! i)) ?pts)))
          [0..<length secret] = secret" .
  have "?pts \<noteq> []"
    using ne by simp
  with dist lens hd_len bytes show ?thesis
    unfolding shamir_combine_def parsed by (simp only: option.case if_True simp_thms)
qed


text \<open>
  The threshold matters: of the one-byte secret \<open>K\<close> split with threshold 2, the first
  share alone combines into another byte.
\<close>

lemma to_nat_numeral: "to_nat (numeral v) = numeral v mod 257"
  using to_nat_of_nat [of "numeral v"] by simp

lemma one_share_of_two:
  "shamir_combine [share_numbers (shamir_share ''K'' 2 7 1)] = Some [char_of (146::nat)]
   \<and> char_of (146::nat) \<noteq> CHR ''K''"
proof
  show "shamir_combine [share_numbers (shamir_share ''K'' 2 7 1)] = Some [char_of (146::nat)]"
    by (simp add: shamir_combine_def parse_share_def share_numbers_def shamir_share_def
        share_values_def coefficients_def noise_def encode_value_def to_nat_numeral
        to_byte_def step_def upt_rec)
  show "char_of (146::nat) \<noteq> CHR ''K''"
    by (simp add: char_of_def)
qed

lemma shamir_fields:
  "sss_split (shamir l) = shamir_split" "sss_combine (shamir l) = shamir_combine"
  "bs58_decode (shamir l) = bs58_decode l" "valid_secretKey (shamir l) = valid_secretKey l"
  by (simp_all add: shamir_def)

text \<open>
  C5. Let the secret-sharing library be the threshold scheme above, with a threshold of
  at least 1 and at most 255 shares. \<open>createShares\<close> splits the private key into N
  distinct shares with threshold K, and for every selection of K distinct shares out of
  these, whichever shares are selected and in whatever order, \<open>recoverPrivateKey\<close>
  returns one and the same result: what decoding the private key itself gives, that is
  the keypair of the decoded secret key when the private key is the base-58 text of a
  valid secret key. On fewer than K shares of any kind it fails with
  \<open>InsufficientShares\<close>.
\<close>

theorem any_threshold_selection_recovers:
  assumes "0 < THRESHOLD cfg" and "SHARES cfg \<le> 255"
  shows "length (created_shares (shamir l) cfg seed privateKey) = SHARES cfg
       \<and> distinct (created_shares (shamir l) cfg seed privateKey)
       \<and> (\<forall>sel. distinct sel
              \<and> set sel \<subseteq> set (created_shares (shamir l) cfg seed privateKey)
              \<and> length sel = THRESHOLD cfg \<longrightarrow>
            recoverPrivateKey cfg (shamir l) (map share_numbers sel) =
              (case bs58_decode l privateKey of
                 None \<Rightarrow> Inl CorruptShare
               | Some sk \<Rightarrow> if valid_secretKey l sk then Inr (Keypair sk) else Inl CorruptShare)
            \<and> (\<forall>sk. bs58_decode l privateKey = Some sk \<and> valid_secretKey l sk \<longrightarrow>
                  recoverPrivateKey cfg (shamir l) (map share_numbers sel) = Inr (Keypair sk)))
       \<and> (\<forall>arr. length arr < THRESHOLD cfg \<longrightarrow>
            recoverPrivateKey cfg (shamir l) arr = Inl InsufficientShares)"
proof -
  let ?shares = "created_shares (shamir l) cfg seed privateKey"
  have shares: "?shares = shamir_split privateKey (SHARES cfg) (THRESHOLD cfg) seed"
    by (simp add: created_shares_def shamir_fields Buffer_from_def)
  have len: "length ?shares = SHARES cfg"
    unfolding shares using assms(2) by (rule shamir_split_shares)
  have dist: "distinct ?shares"
    unfolding shares using assms(2) by (rule shamir_split_shares)
  have sel: "recoverPrivateKey cfg (shamir l) (map share_numbers sel) =
              (case bs58_decode l privateKey of
                 None \<Rightarrow> Inl CorruptShare
               | Some sk \<Rightarrow> if valid_secretKey l sk then Inr (Keypair sk) else Inl CorruptShare)
            \<and> (\<forall>sk. bs58_decode l privateKey = Some sk \<and> valid_secretKey l sk \<longrightarrow>
                  recoverPrivateKey cfg (shamir l) (map share_numbers sel) = Inr (Keypair sk))"
    if a: "distinct sel \<and> set sel \<subseteq> set ?shares \<and> length sel = THRESHOLD cfg" for sel
  proof -
    from a have d: "distinct sel"
      and s: "set sel \<subseteq> set (shamir_split privateKey (SHARES cfg) (THRESHOLD cfg) seed)"
      and l: "THRESHOLD cfg \<le> length sel"
      unfolding shares by simp_all
    have "shamir_combine (map share_numbers sel) = Some privateKey"
      by (rule shamir_combine_selection [OF assms(1) assms(2) d s l])
    then have "try_recover (shamir l) (map share_numbers sel) =
                 (case bs58_decode l privateKey of
                    None \<Rightarrow> None
                  | Some sk \<Rightarrow> if valid_secretKey l sk then Some (Keypair sk) else None)"
      by (simp add: try_recover_def shamir_fields Buffer_toString_def
          Keypair_fromSecretKey_def split: option.splits)
    with a show ?thesis
      by (simp add: recoverPrivateKey_def split: option.splits)
  qed
  have few: "recoverPrivateKey cfg (shamir l) arr = Inl InsufficientShares"
    if "length arr < THRESHOLD cfg" for arr
    using that by (simp add: recoverPrivateKey_def)
  from len dist sel few show ?thesis
    by blast
qed

theorem any_threshold_selection_recovers_witness:
  "length (created_shares (shamir lib0) cfg0 7 key0) = 5
   \<and> recoverPrivateKey cfg0 (shamir lib0) (map share_numbers
        [created_shares (shamir lib0) cfg0 7 key0 ! 4,
         created_shares (shamir lib0) cfg0 7 key0 ! 1,
         created_shares (shamir lib0) cfg0 7 key0 ! 3]) = Inr (Keypair key0)
   \<and> recoverPrivateKey cfg0 (shamir lib0) (map share_numbers
        [created_shares (shamir lib0) cfg0 7 key0 ! 0,
         created_shares (shamir lib0) cfg0 7 key0 ! 2,
         created_shares (shamir lib0) cfg0 7 key0 ! 4]) = Inr (Keypair key0)
   \<and> recoverPrivateKey cfg0 (shamir lib0) (map share_numbers
        [created_shares (shamir lib0) cfg0 7 key0 ! 0,
         created_shares (shamir lib0) cfg0 7 key0 ! 2]) = Inl InsufficientShares"
proof -
  let ?shares = "created_shares (shamir lib0) cfg0 7 key0"
  have k: "0 < THRESHOLD cfg0" and n: "SHARES cfg0 \<le> 255"
    by (simp_all add: cfg0_def)
  have th: "THRESHOLD cfg0 = 3" and sh: "SHARES cfg0 = 5"
    by (simp_all add: cfg0_def)
  have d: "bs58_decode lib0 key0 = Some key0"
    by (simp add: lib0_def decode0_def key0_def base58_def)
  have v: "valid_secretKey lib0 key0"
    by (simp add: lib0_def key0_def)
  note t = any_threshold_selection_recovers [OF k n, of lib0 7 key0]
  from t have len: "length ?shares = 5"
    by (simp add: sh)
  from t have dist: "distinct ?shares"
    by blast
  from t d v have enough: "recoverPrivateKey cfg0 (shamir lib0) (map share_numbers sel) =
      Inr (Keypair key0)"
    if "distinct sel \<and> set sel \<subseteq> set ?shares \<and> length sel = THRESHOLD cfg0" for sel
    using that by blast
  from t have few: "recoverPrivateKey cfg0 (shamir lib0) arr = Inl InsufficientShares"
    if "length arr < THRESHOLD cfg0" for arr
    using that by blast
  have a: "recoverPrivateKey cfg0 (shamir lib0) (map share_numbers
        [?shares ! 4, ?shares ! 1, ?shares ! 3]) = Inr (Keypair key0)"
    using dist len by (intro enough) (simp add: th nth_eq_iff_index_eq)
  have b: "recoverPrivateKey cfg0 (shamir lib0) (map share_numbers
        [?shares ! 0, ?shares ! 2, ?shares ! 4]) = Inr (Keypair key0)"
    using dist len by (intro enough) (simp add: th nth_eq_iff_index_eq)
  have c: "recoverPrivateKey cfg0 (shamir lib0) (map share_numbers
        [?shares ! 0, ?shares ! 2]) = Inl InsufficientShares"
    by (rule few) (simp add: th)
  from len a b c show ?thesis
    by blast
qed

end
